theory Spec2Isabelle
  imports Main
begin

section \<open>The ORIGIN SDK client: data model\<close>

text \<open>
  The client (class \<open>Origin\<close>, file \<open>origin.ts\<close>) exists in two variants in the
  repository. The variant of \<open>src/origin.ts\<close> reads the registry whose record carries an
  explicit verified flag, a separate lineage accessor and per-index license reads; its
  definitions keep the source's names. The other variant reads the registry whose record
  carries the human principal, the creator and the lineage depth and whose licenses come
  as one list; its definitions carry the suffix \<open>_v1\<close>.

  Conventions of the embedding:
  \<^item> a JavaScript \<open>number\<close> that holds an identifier, a count, a block number or an
    instant is an \<open>int\<close> or a \<open>nat\<close>: the model covers integral values in the range
    where \<open>number\<close> is exact; a \<open>bigint\<close> decoded from a \<open>uint256\<close> is a \<open>nat\<close>;
  \<^item> a rejected promise or a thrown value is \<open>Inl\<close> of an \<open>exn\<close>, a fulfilled one is
    \<open>Inr\<close>;
  \<^item> the remote ledger is a record of responses, one field per read-only function of
    the three contracts, typed as the ABI types them;
  \<^item> every call of \<open>readContract\<close> is appended to the field \<open>calls\<close> of the client
    state, in the order in which the calls are issued;
  \<^item> \<open>Date.now()\<close> is a parameter: \<open>tget\<close> is the instant read by \<open>getCache\<close>,
    \<open>tset\<close> the instant read by \<open>setCache\<close>.
\<close>

datatype exn = Error string | NonError

datatype call =
    RegistryBalanceOf string
  | RegistryOwnerOf int
  | RegistryGetAgent int
  | RegistryIsVerified int
  | RegistryGetLineage int
  | RegistryGetLicenseCount int
  | RegistryGetLicense int nat
  | RegistryGetLicenses int
  | RegistryTokenURI int
  | RegistryTotalRegistered
  | RegistryTotalAgents
  | FaucetHasClaimed string
  | FaucetTotalClaims
  | ClamsTotalSupply
  | ClamsBalanceOf string

subsection \<open>Types of \<open>types.ts\<close>\<close>

record License =
  type_lic :: string
  id_lic :: string
  issuedAt :: nat

record Lineage =
  parentId :: nat
  depth :: nat

record Agent =
  id_agent :: int
  name :: string
  agentType :: string
  owner :: string
  birthBlock :: nat
  isVerified :: bool
  trustLevel :: nat
  licenses :: "License list"
  lineage :: Lineage
  tokenURI :: string

text \<open>The result of a verification; \<open>'a\<close> is the type of the agent record.\<close>

record 'a VerificationResult =
  verified :: bool
  trustLevel_res :: nat
  agent :: "'a option"
  error :: "string option"

record ProtocolStats =
  totalRegistered :: nat
  totalClaims :: nat
  totalClamsSupply :: string

text \<open>
  \<open>ClamsBalance.amount\<close> is \<open>Number(formatted)\<close>, a floating-point approximation; the
  model keeps the two exact fields.
\<close>

record ClamsBalance =
  raw :: nat
  formatted :: string

record OriginConfig =
  rpcUrl :: "string option"
  cacheTtl_cfg :: "int option"

subsection \<open>Types of the other variant\<close>

record License_v1 =
  licenseType_v1 :: string
  licenseNumber_v1 :: string
  holder_v1 :: string
  jurisdiction_v1 :: string
  active_lic_v1 :: bool

text \<open>The struct returned by the registry's \<open>getAgent\<close> in this variant.\<close>

record AgentRecord_v1 =
  rec_name :: string
  rec_agentType :: string
  rec_platform :: string
  rec_creator :: string
  rec_parentAgentId :: nat
  rec_humanPrincipal :: string
  rec_lineageDepth :: nat
  rec_birthTimestamp :: nat
  rec_publicKeyHash :: string
  rec_active :: bool

record Agent_v1 =
  id_v1 :: int
  name_v1 :: string
  agentType_v1 :: string
  platform_v1 :: string
  owner_v1 :: string
  creator_v1 :: string
  parentAgentId_v1 :: nat
  humanPrincipal_v1 :: string
  lineageDepth_v1 :: nat
  birthTimestamp_v1 :: nat
  active_v1 :: bool
  trustLevel_v1 :: nat
  licenses_v1 :: "License_v1 list"
  tokenURI_v1 :: string

record ProtocolStats_v1 =
  totalAgents_v1 :: nat
  totalClaims_v1 :: nat
  totalClamsSupply_v1 :: string

subsection \<open>The remote read gateway\<close>

record rpc =
  registry_balanceOf :: "string \<Rightarrow> exn + nat"
  registry_ownerOf :: "int \<Rightarrow> exn + string"
  registry_getAgent :: "int \<Rightarrow> exn + (string \<times> string \<times> string \<times> nat)"
  registry_isVerified :: "int \<Rightarrow> exn + bool"
  registry_getLineage :: "int \<Rightarrow> exn + (nat \<times> nat)"
  registry_getLicenseCount :: "int \<Rightarrow> exn + nat"
  registry_getLicense :: "int \<Rightarrow> nat \<Rightarrow> exn + (string \<times> string \<times> nat)"
  registry_tokenURI :: "int \<Rightarrow> exn + string"
  registry_totalRegistered :: "exn + nat"
  registry_getAgent_v1 :: "int \<Rightarrow> exn + AgentRecord_v1"
  registry_getLicenses :: "int \<Rightarrow> exn + License_v1 list"
  registry_totalAgents :: "exn + nat"
  faucet_hasClaimed :: "string \<Rightarrow> exn + bool"
  faucet_totalClaims :: "exn + nat"
  clamsToken_totalSupply :: "exn + nat"
  clamsToken_balanceOf :: "string \<Rightarrow> exn + nat"

section \<open>The cache\<close>

record 'v CacheEntry =
  data :: 'v
  expiresAt :: int

text \<open>
  The private fields of the class: the map of cache entries, the TTL fixed by the
  constructor, and the calls issued so far through \<open>client.readContract\<close>.
\<close>

record 'v Origin =
  cache :: "string \<rightharpoonup> 'v CacheEntry"
  cacheTtl :: int
  calls :: "call list"

text \<open>The values held under the keys \<open>agent:<id>\<close> and \<open>stats\<close>.\<close>

datatype cached = AgentData Agent | StatsData ProtocolStats

datatype cached_v1 = AgentData_v1 Agent_v1 | StatsData_v1 ProtocolStats_v1

text \<open>\<open>this.cacheTtl = config?.cacheTtl ?? 30_000\<close>, the cache starts empty.\<close>

definition Origin_constructor :: "OriginConfig option \<Rightarrow> 'v Origin" where
  "Origin_constructor config =
     \<lparr> cache = Map.empty,
       cacheTtl = (case (case config of None \<Rightarrow> None | Some c \<Rightarrow> cacheTtl_cfg c) of
                     None \<Rightarrow> 30000
                   | Some ttl \<Rightarrow> ttl),
       calls = [] \<rparr>"

definition getCache :: "int \<Rightarrow> string \<Rightarrow> 'v Origin \<Rightarrow> 'v option \<times> 'v Origin" where
  "getCache now key st =
     (case cache st key of
        None \<Rightarrow> (None, st)
      | Some entry \<Rightarrow>
          if now > expiresAt entry
          then (None, st\<lparr>cache := (cache st)(key := None)\<rparr>)
          else (Some (data entry), st))"

definition setCache :: "int \<Rightarrow> string \<Rightarrow> 'v \<Rightarrow> 'v Origin \<Rightarrow> 'v Origin" where
  "setCache now key d st =
     st\<lparr>cache := (cache st)(key \<mapsto> \<lparr>data = d, expiresAt = now + cacheTtl st\<rparr>)\<rparr>"

definition clearCache :: "'v Origin \<Rightarrow> 'v Origin" where
  "clearCache st = st\<lparr>cache := Map.empty\<rparr>"

section \<open>Strings\<close>

text \<open>
  The decimal rendering of a non-negative integer (\<open>bigint.toString()\<close>, and a
  \<open>number\<close> in a template literal), and of a signed one.
\<close>

text \<open>The character of a digit \<open>d < 10\<close>.\<close>

definition digitChar :: "nat \<Rightarrow> char" where
  "digitChar d = ''0123456789'' ! d"

fun digits :: "nat \<Rightarrow> string" where
  "digits n =
     (if n < 10 then [digitChar n]
      else digits (n div 10) @ [digitChar (n mod 10)])"

declare digits.simps [simp del]

definition showInt :: "int \<Rightarrow> string" where
  "showInt i = (if i < 0 then CHR ''-'' # digits (nat (- i)) else digits (nat i))"

text \<open>
  \<open>String.prototype.toLowerCase\<close> on the strings the client compares, which are
  hexadecimal addresses: the letters \<open>A\<close> to \<open>Z\<close> are mapped to \<open>a\<close> to \<open>z\<close>.
\<close>

definition lowerChar :: "char \<Rightarrow> char" where
  "lowerChar c =
     (case map_of (zip ''ABCDEFGHIJKLMNOPQRSTUVWXYZ'' ''abcdefghijklmnopqrstuvwxyz'') c of
        Some l \<Rightarrow> l
      | None \<Rightarrow> c)"

definition toLowerCase :: "string \<Rightarrow> string" where
  "toLowerCase s = map lowerChar s"

text \<open>\<open>String.prototype.includes\<close>: \<open>sub\<close> occurs in \<open>s\<close> as a contiguous run.\<close>

fun startsWith :: "string \<Rightarrow> string \<Rightarrow> bool" where
  "startsWith s [] = True"
| "startsWith [] (c # sub) = False"
| "startsWith (d # s) (c # sub) = (d = c \<and> startsWith s sub)"

fun includes_str :: "string \<Rightarrow> string \<Rightarrow> bool" where
  "includes_str [] sub = (sub = [])"
| "includes_str (d # s) sub = (startsWith (d # s) sub \<or> includes_str s sub)"

text \<open>
  Modelled from the spec: \<open>formatUnits\<close> is imported from the library \<open>viem\<close> and is not
  part of the sources. The spec describes its result as the base units written as a
  fixed-point decimal string with the token's decimal precision; a whole amount is
  written without fraction (the spec's scenario D). The value is padded on the left with
  zeros to at least \<open>decimals\<close> digits and cut \<open>decimals\<close> digits from the right; the
  trailing zeros of the fraction are dropped, an empty integer part is written \<open>0\<close>, and
  the point is written only before a non-empty fraction.
\<close>

definition formatUnits :: "nat \<Rightarrow> nat \<Rightarrow> string" where
  "formatUnits v decimals =
     (let display = digits v;
          display = replicate (decimals - length display) (CHR ''0'') @ display;
          integer = take (length display - decimals) display;
          fraction = drop (length display - decimals) display;
          fraction = rev (dropWhile (\<lambda>c. c = CHR ''0'') (rev fraction))
      in (if integer = [] then ''0'' else integer)
         @ (if fraction = [] then [] else CHR ''.'' # fraction))"

section \<open>The client of \<open>src/origin.ts\<close>\<close>

text \<open>
  The private method \<open>readContract\<close> passes its arguments to \<open>client.readContract\<close>;
  its result is the ledger's response. \<open>issue\<close> records the calls made.
\<close>

definition issue :: "call list \<Rightarrow> 'v Origin \<Rightarrow> 'v Origin" where
  "issue cs st = st\<lparr>calls := calls st @ cs\<rparr>"

subsection \<open>Record assembly\<close>

text \<open>
  The license loop of \<open>getAgent\<close>: \<open>for (let i = 0; i < count; i++)\<close>, one read per
  index, \<open>break\<close> at the first read that fails. The result is the list of licenses
  pushed and the reads issued.
\<close>

function licenseLoop ::
  "rpc \<Rightarrow> int \<Rightarrow> nat \<Rightarrow> nat \<Rightarrow> License list \<Rightarrow> call list \<Rightarrow> License list \<times> call list"
where
  "licenseLoop r tokenId i count lics cs =
     (if i < count then
        (case registry_getLicense r tokenId i of
           Inr lic \<Rightarrow>
             licenseLoop r tokenId (i + 1) count
               (lics @ [\<lparr>type_lic = fst lic, id_lic = fst (snd lic), issuedAt = snd (snd lic)\<rparr>])
               (cs @ [RegistryGetLicense tokenId i])
         | Inl e \<Rightarrow> (lics, cs @ [RegistryGetLicense tokenId i]))
      else (lics, cs))"
  by pat_completeness auto
termination
  by (relation "measure (\<lambda>(r, tokenId, i, count, lics, cs). count - i)") auto

declare licenseLoop.simps [simp del]

text \<open>
  The body of the \<open>try\<close> block of \<open>getAgent\<close> up to the construction of the record: the
  five reads of \<open>Promise.all\<close> are issued together, in the order of the array; the reads
  of the verified flag, the lineage, the license count and the token URI carry a
  \<open>.catch\<close> with a default, the read of the core record does not, and its failure rejects
  \<open>Promise.all\<close>, which the \<open>catch\<close> of \<open>getAgent\<close> turns into \<open>null\<close>.
\<close>

definition assembleAgent :: "rpc \<Rightarrow> int \<Rightarrow> Agent option \<times> call list" where
  "assembleAgent r tokenId =
     (let fanout = [RegistryGetAgent tokenId, RegistryIsVerified tokenId,
                    RegistryGetLineage tokenId, RegistryGetLicenseCount tokenId,
                    RegistryTokenURI tokenId]
      in case registry_getAgent r tokenId of
           Inl e \<Rightarrow> (None, fanout)
         | Inr agentData \<Rightarrow>
             (let verified = (case registry_isVerified r tokenId of
                                Inl e \<Rightarrow> False | Inr v \<Rightarrow> v);
                  lin = (case registry_getLineage r tokenId of
                           Inl e \<Rightarrow> (0, 0) | Inr l \<Rightarrow> l);
                  licenseCount = (case registry_getLicenseCount r tokenId of
                                    Inl e \<Rightarrow> 0 | Inr n \<Rightarrow> n);
                  uri = (case registry_tokenURI r tokenId of
                           Inl e \<Rightarrow> [] | Inr u \<Rightarrow> u);
                  loop = licenseLoop r tokenId 0 licenseCount [] [];
                  lics = fst loop;
                  level = (if verified \<and> length lics > 0 then 2
                           else if verified then 1 else 0)
              in (Some \<lparr> id_agent = tokenId,
                         name = fst agentData,
                         agentType = fst (snd agentData),
                         owner = fst (snd (snd agentData)),
                         birthBlock = snd (snd (snd agentData)),
                         isVerified = verified,
                         trustLevel = level,
                         licenses = lics,
                         lineage = \<lparr>parentId = fst lin, depth = snd lin\<rparr>,
                         tokenURI = uri \<rparr>,
                  fanout @ snd loop)))"

text \<open>
  \<open>getAgent\<close>. The cast of \<open>getCache<Agent>\<close> is unchecked in the source; the key
  \<open>agent:<id>\<close> is written by \<open>getAgent\<close> only and the key \<open>stats\<close> by \<open>getStats\<close> only, so
  that a lookup under \<open>agent:<id>\<close> never finds statistics (lemmas \<open>reachable_cache_ok\<close>
  and \<open>cache_ok_hit\<close> below); the model reads such an entry as a miss.
\<close>

definition agentKey :: "int \<Rightarrow> string" where
  "agentKey tokenId = ''agent:'' @ showInt tokenId"

definition getAgent ::
  "rpc \<Rightarrow> int \<Rightarrow> int \<Rightarrow> int \<Rightarrow> cached Origin \<Rightarrow> (exn + Agent option) \<times> cached Origin"
where
  "getAgent r tget tset tokenId st =
     (let cacheKey = agentKey tokenId;
          looked = getCache tget cacheKey st
      in case fst looked of
           Some (AgentData a) \<Rightarrow> (Inr (Some a), snd looked)
         | _ \<Rightarrow>
             (let assembled = assembleAgent r tokenId;
                  st1 = issue (snd assembled) (snd looked)
              in case fst assembled of
                   Some a \<Rightarrow> (Inr (Some a), setCache tset cacheKey (AgentData a) st1)
                 | None \<Rightarrow> (Inr None, st1)))"

subsection \<open>Owner resolution\<close>

definition getTotalRegistered :: "rpc \<Rightarrow> 'v Origin \<Rightarrow> (exn + nat) \<times> 'v Origin" where
  "getTotalRegistered r st = (registry_totalRegistered r, issue [RegistryTotalRegistered] st)"

text \<open>
  The loop of \<open>findAgentByOwner\<close>: \<open>for (let id = total; id >= 1; id--)\<close>, one ownership
  read per identifier; a failed read is caught and the loop continues.
\<close>

function ownerScan ::
  "rpc \<Rightarrow> int \<Rightarrow> int \<Rightarrow> string \<Rightarrow> int \<Rightarrow> cached Origin
   \<Rightarrow> (exn + Agent option) \<times> cached Origin"
where
  "ownerScan r tget tset normalizedAddress i st =
     (if i \<ge> 1 then
        (let st1 = issue [RegistryOwnerOf i] st
         in case registry_ownerOf r i of
              Inr own \<Rightarrow>
                if toLowerCase own = normalizedAddress
                then getAgent r tget tset i st1
                else ownerScan r tget tset normalizedAddress (i - 1) st1
            | Inl e \<Rightarrow> ownerScan r tget tset normalizedAddress (i - 1) st1)
      else (Inr None, st))"
  by pat_completeness auto
termination
  by (relation "measure (\<lambda>(r, tget, tset, normalizedAddress, i, st). nat i)") auto

declare ownerScan.simps [simp del]

definition findAgentByOwner ::
  "rpc \<Rightarrow> int \<Rightarrow> int \<Rightarrow> string \<Rightarrow> cached Origin \<Rightarrow> (exn + Agent option) \<times> cached Origin"
where
  "findAgentByOwner r tget tset address st =
     (let t = getTotalRegistered r st
      in case fst t of
           Inl e \<Rightarrow> (Inl e, snd t)
         | Inr tot \<Rightarrow> ownerScan r tget tset (toLowerCase address) (int tot) (snd t))"

subsection \<open>The primary operations\<close>

text \<open>The \<open>catch\<close> of \<open>verifyAgent\<close> and of \<open>verifyAgentById\<close>.\<close>

definition verificationFailed :: "exn \<Rightarrow> 'a VerificationResult" where
  "verificationFailed e =
     \<lparr> verified = False, trustLevel_res = 0, agent = None,
       error = Some (case e of Error message \<Rightarrow> message
                             | NonError \<Rightarrow> ''Verification failed'') \<rparr>"

definition verifyAgent ::
  "rpc \<Rightarrow> int \<Rightarrow> int \<Rightarrow> string \<Rightarrow> cached Origin
   \<Rightarrow> (exn + Agent VerificationResult) \<times> cached Origin"
where
  "verifyAgent r tget tset address st =
     (let st1 = issue [RegistryBalanceOf address] st
      in case registry_balanceOf r address of
           Inl e \<Rightarrow> (Inr (verificationFailed e), st1)
         | Inr balance \<Rightarrow>
             if balance = 0
             then (Inr \<lparr> verified = False, trustLevel_res = 0, agent = None,
                         error = Some ''No Birth Certificate found for this address'' \<rparr>,
                   st1)
             else (let found = findAgentByOwner r tget tset address st1
                   in case fst found of
                        Inl e \<Rightarrow> (Inr (verificationFailed e), snd found)
                      | Inr None \<Rightarrow>
                          (Inr \<lparr> verified = False, trustLevel_res = 0, agent = None,
                                  error = Some ''Birth Certificate exists but agent data not found'' \<rparr>,
                           snd found)
                      | Inr (Some a) \<Rightarrow>
                          (Inr \<lparr> verified = True, trustLevel_res = trustLevel a,
                                  agent = Some a, error = None \<rparr>,
                           snd found)))"

definition verifyAgentById ::
  "rpc \<Rightarrow> int \<Rightarrow> int \<Rightarrow> int \<Rightarrow> cached Origin
   \<Rightarrow> (exn + Agent VerificationResult) \<times> cached Origin"
where
  "verifyAgentById r tget tset tokenId st =
     (let got = getAgent r tget tset tokenId st
      in case fst got of
           Inl e \<Rightarrow> (Inr (verificationFailed e), snd got)
         | Inr None \<Rightarrow>
             (Inr \<lparr> verified = False, trustLevel_res = 0, agent = None,
                     error = Some (''No agent found with ID '' @ showInt tokenId) \<rparr>,
              snd got)
         | Inr (Some a) \<Rightarrow>
             (Inr \<lparr> verified = True, trustLevel_res = trustLevel a,
                     agent = Some a, error = None \<rparr>,
              snd got))"

definition isRegistered :: "rpc \<Rightarrow> string \<Rightarrow> 'v Origin \<Rightarrow> (exn + bool) \<times> 'v Origin" where
  "isRegistered r address st =
     (let st1 = issue [RegistryBalanceOf address] st
      in case registry_balanceOf r address of
           Inr balance \<Rightarrow> (Inr (balance > 0), st1)
         | Inl e \<Rightarrow> (Inr False, st1))"

definition hasClaimed :: "rpc \<Rightarrow> string \<Rightarrow> 'v Origin \<Rightarrow> (exn + bool) \<times> 'v Origin" where
  "hasClaimed r address st =
     (let st1 = issue [FaucetHasClaimed address] st
      in case faucet_hasClaimed r address of
           Inr claimed \<Rightarrow> (Inr claimed, st1)
         | Inl e \<Rightarrow> (Inr False, st1))"

subsection \<open>Protocol statistics and token balance\<close>

text \<open>
  \<open>getStats\<close>: the three reads of \<open>Promise.all\<close> are issued together; the reads of the
  claims and of the supply carry a \<open>.catch\<close> with a default, \<open>getTotalRegistered\<close> does
  not, and no \<open>try\<close> encloses \<open>Promise.all\<close>.
\<close>

definition getStats ::
  "rpc \<Rightarrow> int \<Rightarrow> int \<Rightarrow> cached Origin \<Rightarrow> (exn + ProtocolStats) \<times> cached Origin"
where
  "getStats r tget tset st =
     (let cacheKey = ''stats'';
          looked = getCache tget cacheKey st
      in case fst looked of
           Some (StatsData s) \<Rightarrow> (Inr s, snd looked)
         | _ \<Rightarrow>
             (let st1 = issue [RegistryTotalRegistered, FaucetTotalClaims, ClamsTotalSupply]
                          (snd looked)
              in case registry_totalRegistered r of
                   Inl e \<Rightarrow> (Inl e, st1)
                 | Inr tot \<Rightarrow>
                     (let claims = (case faucet_totalClaims r of
                                      Inl e \<Rightarrow> 0 | Inr n \<Rightarrow> n);
                          supply = (case clamsToken_totalSupply r of
                                      Inl e \<Rightarrow> ''0'' | Inr v \<Rightarrow> formatUnits v 18);
                          stats = \<lparr> totalRegistered = tot, totalClaims = claims,
                                    totalClamsSupply = supply \<rparr>
                      in (Inr stats, setCache tset cacheKey (StatsData stats) st1))))"

definition getClamsBalance ::
  "rpc \<Rightarrow> string \<Rightarrow> 'v Origin \<Rightarrow> (exn + ClamsBalance) \<times> 'v Origin"
where
  "getClamsBalance r address st =
     (let st1 = issue [ClamsBalanceOf address] st
      in case clamsToken_balanceOf r address of
           Inl e \<Rightarrow> (Inl e, st1)
         | Inr b \<Rightarrow> (Inr \<lparr> raw = b, formatted = formatUnits b 18 \<rparr>, st1))"

section \<open>The client of the other variant\<close>

text \<open>
  In this variant \<open>Promise.all\<close> of \<open>getAgent\<close> issues four reads: the core record, the
  license list, the owner and the token URI. Only the read of the license list carries a
  \<open>.catch\<close>; a failure of any of the other three rejects \<open>Promise.all\<close>.
\<close>

definition assembleAgent_v1 :: "rpc \<Rightarrow> int \<Rightarrow> Agent_v1 option \<times> call list" where
  "assembleAgent_v1 r tokenId =
     (let fanout = [RegistryGetAgent tokenId, RegistryGetLicenses tokenId,
                    RegistryOwnerOf tokenId, RegistryTokenURI tokenId]
      in case registry_getAgent_v1 r tokenId of
           Inl e \<Rightarrow> (None, fanout)
         | Inr core \<Rightarrow>
             (case registry_ownerOf r tokenId of
                Inl e \<Rightarrow> (None, fanout)
              | Inr own \<Rightarrow>
                  (case registry_tokenURI r tokenId of
                     Inl e \<Rightarrow> (None, fanout)
                   | Inr uri \<Rightarrow>
                       (let lics = (case registry_getLicenses r tokenId of
                                      Inl e \<Rightarrow> [] | Inr ls \<Rightarrow> ls);
                            hasHumanPrincipal =
                              (rec_humanPrincipal core
                                 \<noteq> ''0x0000000000000000000000000000000000000000'');
                            activeLicenses = filter active_lic_v1 lics;
                            level = (if length activeLicenses > 0 then 2
                                     else if hasHumanPrincipal then 1 else 0)
                        in (Some \<lparr> id_v1 = tokenId,
                                   name_v1 = rec_name core,
                                   agentType_v1 = rec_agentType core,
                                   platform_v1 = rec_platform core,
                                   owner_v1 = own,
                                   creator_v1 = rec_creator core,
                                   parentAgentId_v1 = rec_parentAgentId core,
                                   humanPrincipal_v1 = rec_humanPrincipal core,
                                   lineageDepth_v1 = rec_lineageDepth core,
                                   birthTimestamp_v1 = rec_birthTimestamp core,
                                   active_v1 = rec_active core,
                                   trustLevel_v1 = level,
                                   licenses_v1 =
                                     map (\<lambda>l. \<lparr> licenseType_v1 = licenseType_v1 l,
                                                 licenseNumber_v1 = licenseNumber_v1 l,
                                                 holder_v1 = holder_v1 l,
                                                 jurisdiction_v1 = jurisdiction_v1 l,
                                                 active_lic_v1 = active_lic_v1 l \<rparr>) lics,
                                   tokenURI_v1 = uri \<rparr>,
                            fanout)))))"

definition getAgent_v1 ::
  "rpc \<Rightarrow> int \<Rightarrow> int \<Rightarrow> int \<Rightarrow> cached_v1 Origin
   \<Rightarrow> (exn + Agent_v1 option) \<times> cached_v1 Origin"
where
  "getAgent_v1 r tget tset tokenId st =
     (let cacheKey = agentKey tokenId;
          looked = getCache tget cacheKey st
      in case fst looked of
           Some (AgentData_v1 a) \<Rightarrow> (Inr (Some a), snd looked)
         | _ \<Rightarrow>
             (let assembled = assembleAgent_v1 r tokenId;
                  st1 = issue (snd assembled) (snd looked)
              in case fst assembled of
                   Some a \<Rightarrow> (Inr (Some a), setCache tset cacheKey (AgentData_v1 a) st1)
                 | None \<Rightarrow> (Inr None, st1)))"

definition getTotalAgents :: "rpc \<Rightarrow> 'v Origin \<Rightarrow> (exn + nat) \<times> 'v Origin" where
  "getTotalAgents r st = (registry_totalAgents r, issue [RegistryTotalAgents] st)"

function ownerScan_v1 ::
  "rpc \<Rightarrow> int \<Rightarrow> int \<Rightarrow> string \<Rightarrow> int \<Rightarrow> cached_v1 Origin
   \<Rightarrow> (exn + Agent_v1 option) \<times> cached_v1 Origin"
where
  "ownerScan_v1 r tget tset normalizedAddress i st =
     (if i \<ge> 1 then
        (let st1 = issue [RegistryOwnerOf i] st
         in case registry_ownerOf r i of
              Inr own \<Rightarrow>
                if toLowerCase own = normalizedAddress
                then getAgent_v1 r tget tset i st1
                else ownerScan_v1 r tget tset normalizedAddress (i - 1) st1
            | Inl e \<Rightarrow> ownerScan_v1 r tget tset normalizedAddress (i - 1) st1)
      else (Inr None, st))"
  by pat_completeness auto
termination
  by (relation "measure (\<lambda>(r, tget, tset, normalizedAddress, i, st). nat i)") auto

declare ownerScan_v1.simps [simp del]

definition findAgentByOwner_v1 ::
  "rpc \<Rightarrow> int \<Rightarrow> int \<Rightarrow> string \<Rightarrow> cached_v1 Origin
   \<Rightarrow> (exn + Agent_v1 option) \<times> cached_v1 Origin"
where
  "findAgentByOwner_v1 r tget tset address st =
     (let t = getTotalAgents r st
      in case fst t of
           Inl e \<Rightarrow> (Inl e, snd t)
         | Inr tot \<Rightarrow> ownerScan_v1 r tget tset (toLowerCase address) (int tot) (snd t))"

definition verifyAgent_v1 ::
  "rpc \<Rightarrow> int \<Rightarrow> int \<Rightarrow> string \<Rightarrow> cached_v1 Origin
   \<Rightarrow> (exn + Agent_v1 VerificationResult) \<times> cached_v1 Origin"
where
  "verifyAgent_v1 r tget tset address st =
     (let st1 = issue [RegistryBalanceOf address] st
      in case registry_balanceOf r address of
           Inl e \<Rightarrow> (Inr (verificationFailed e), st1)
         | Inr balance \<Rightarrow>
             if balance = 0
             then (Inr \<lparr> verified = False, trustLevel_res = 0, agent = None,
                         error = Some ''No Birth Certificate found for this address'' \<rparr>,
                   st1)
             else (let found = findAgentByOwner_v1 r tget tset address st1
                   in case fst found of
                        Inl e \<Rightarrow> (Inr (verificationFailed e), snd found)
                      | Inr None \<Rightarrow>
                          (Inr \<lparr> verified = False, trustLevel_res = 0, agent = None,
                                  error = Some ''Birth Certificate exists but agent data not found'' \<rparr>,
                           snd found)
                      | Inr (Some a) \<Rightarrow>
                          (Inr \<lparr> verified = True, trustLevel_res = trustLevel_v1 a,
                                  agent = Some a, error = None \<rparr>,
                           snd found)))"

definition getStats_v1 ::
  "rpc \<Rightarrow> int \<Rightarrow> int \<Rightarrow> cached_v1 Origin
   \<Rightarrow> (exn + ProtocolStats_v1) \<times> cached_v1 Origin"
where
  "getStats_v1 r tget tset st =
     (let cacheKey = ''stats'';
          looked = getCache tget cacheKey st
      in case fst looked of
           Some (StatsData_v1 s) \<Rightarrow> (Inr s, snd looked)
         | _ \<Rightarrow>
             (let st1 = issue [RegistryTotalAgents, FaucetTotalClaims, ClamsTotalSupply]
                          (snd looked)
              in case registry_totalAgents r of
                   Inl e \<Rightarrow> (Inl e, st1)
                 | Inr tot \<Rightarrow>
                     (let claims = (case faucet_totalClaims r of
                                      Inl e \<Rightarrow> 0 | Inr n \<Rightarrow> n);
                          supply = (case clamsToken_totalSupply r of
                                      Inl e \<Rightarrow> ''0'' | Inr v \<Rightarrow> formatUnits v 18);
                          stats = \<lparr> totalAgents_v1 = tot, totalClaims_v1 = claims,
                                    totalClamsSupply_v1 = supply \<rparr>
                      in (Inr stats, setCache tset cacheKey (StatsData_v1 stats) st1))))"

section \<open>Predicates of the statements\<close>

text \<open>
  The ownership read for identifier \<open>i\<close> succeeds and returns the address, compared as
  \<open>findAgentByOwner\<close> compares: both sides in lower case.
\<close>

definition ownedBy :: "rpc \<Rightarrow> string \<Rightarrow> int \<Rightarrow> bool" where
  "ownedBy r address i =
     (case registry_ownerOf r i of
        Inr own \<Rightarrow> toLowerCase own = toLowerCase address
      | Inl e \<Rightarrow> False)"

text \<open>
  Every entry of the cache is either under the key \<open>agent:<id>\<close> of its own identifier
  and holds the record that the ledger \<open>r\<close> gives for this identifier, or is under the
  key \<open>stats\<close> and holds statistics.
\<close>

definition cache_ok :: "rpc \<Rightarrow> cached Origin \<Rightarrow> bool" where
  "cache_ok r st \<longleftrightarrow>
     (\<forall>key e. cache st key = Some e \<longrightarrow>
        (case data e of
           AgentData a \<Rightarrow>
             key = agentKey (id_agent a) \<and> fst (assembleAgent r (id_agent a)) = Some a
         | StatsData s \<Rightarrow> key = ''stats''))"

text \<open>
  The states of a client that was constructed and then used through its public
  operations, at any instants, on a ledger \<open>r\<close> that answers each read always the same
  way.
\<close>

inductive reachable :: "rpc \<Rightarrow> cached Origin \<Rightarrow> bool" for r :: rpc where
  constructed: "reachable r (Origin_constructor config)"
| verifyAgent: "reachable r st \<Longrightarrow> reachable r (snd (verifyAgent r tget tset address st))"
| verifyAgentById:
    "reachable r st \<Longrightarrow> reachable r (snd (verifyAgentById r tget tset tokenId st))"
| isRegistered: "reachable r st \<Longrightarrow> reachable r (snd (isRegistered r address st))"
| hasClaimed: "reachable r st \<Longrightarrow> reachable r (snd (hasClaimed r address st))"
| getAgent: "reachable r st \<Longrightarrow> reachable r (snd (getAgent r tget tset tokenId st))"
| findAgentByOwner:
    "reachable r st \<Longrightarrow> reachable r (snd (findAgentByOwner r tget tset address st))"
| getStats: "reachable r st \<Longrightarrow> reachable r (snd (getStats r tget tset st))"
| getClamsBalance: "reachable r st \<Longrightarrow> reachable r (snd (getClamsBalance r address st))"
| clearCache: "reachable r st \<Longrightarrow> reachable r (clearCache st)"

section \<open>Concrete ledgers and clients\<close>

text \<open>A ledger on which every read fails.\<close>

definition rpcDown :: rpc where
  "rpcDown =
     \<lparr> registry_balanceOf = (\<lambda>a. Inl (Error ''rpc down'')),
       registry_ownerOf = (\<lambda>i. Inl (Error ''rpc down'')),
       registry_getAgent = (\<lambda>i. Inl (Error ''rpc down'')),
       registry_isVerified = (\<lambda>i. Inl (Error ''rpc down'')),
       registry_getLineage = (\<lambda>i. Inl (Error ''rpc down'')),
       registry_getLicenseCount = (\<lambda>i. Inl (Error ''rpc down'')),
       registry_getLicense = (\<lambda>i j. Inl (Error ''rpc down'')),
       registry_tokenURI = (\<lambda>i. Inl (Error ''rpc down'')),
       registry_totalRegistered = Inl (Error ''rpc down''),
       registry_getAgent_v1 = (\<lambda>i. Inl (Error ''rpc down'')),
       registry_getLicenses = (\<lambda>i. Inl (Error ''rpc down'')),
       registry_totalAgents = Inl (Error ''rpc down''),
       faucet_hasClaimed = (\<lambda>a. Inl (Error ''rpc down'')),
       faucet_totalClaims = Inl (Error ''rpc down''),
       clamsToken_totalSupply = Inl (Error ''rpc down''),
       clamsToken_balanceOf = (\<lambda>a. Inl (Error ''rpc down'')) \<rparr>"

text \<open>
  A registry of three records. Record 2 is owned by \<open>0xABC\<close>, records 1 and 3 by
  \<open>0xdef\<close>; the ownership read of record 3 fails. Record 1 is verified and announces three licenses, of which the read at
  index 1 fails; record 2 is verified and has one license; record 3 is not verified and
  has one license. The reads of the verified flag, of the lineage and of the license
  count fail for identifier 4, whose core record can be read. The token supply is
  \<open>1000000 * 10^18\<close> base units.
\<close>

definition demoRecord_v1 :: "int \<Rightarrow> AgentRecord_v1" where
  "demoRecord_v1 i =
     \<lparr> rec_name = ''Suppi'', rec_agentType = ''guardian'', rec_platform = ''base'',
       rec_creator = ''0xdef'', rec_parentAgentId = 0,
       rec_humanPrincipal =
         (if i = 2 then ''0x0000000000000000000000000000000000000000'' else ''0xdef''),
       rec_lineageDepth = 0, rec_birthTimestamp = 1700000000,
       rec_publicKeyHash = ''0x00'', rec_active = True \<rparr>"

definition rpcDemo :: rpc where
  "rpcDemo =
     \<lparr> registry_balanceOf =
         (\<lambda>a. if toLowerCase a = ''0xabc'' then Inr 1
               else if toLowerCase a = ''0xdef'' then Inr 2 else Inr 0),
       registry_ownerOf =
         (\<lambda>i. if i = 2 then Inr ''0xABC''
               else if i = 1 then Inr ''0xdef''
               else if i = 3 then Inl (Error ''timeout'')
               else Inl (Error ''nonexistent token'')),
       registry_getAgent =
         (\<lambda>i. if 1 \<le> i \<and> i \<le> 4
               then Inr (''Suppi'', ''guardian'', if i = 2 then ''0xABC'' else ''0xdef'', 100)
               else Inl (Error ''nonexistent token'')),
       registry_isVerified =
         (\<lambda>i. if i = 4 then Inl (Error ''timeout'') else Inr (i = 1 \<or> i = 2)),
       registry_getLineage =
         (\<lambda>i. if i = 4 then Inl (Error ''timeout'') else Inr (0, 1)),
       registry_getLicenseCount =
         (\<lambda>i. if i = 4 then Inl (Error ''timeout'')
               else if i = 1 then Inr 3 else Inr 1),
       registry_getLicense =
         (\<lambda>i j. if j = 0 then Inr (''MLO'', ''154083'', 1700000000)
                 else Inl (Error ''timeout'')),
       registry_tokenURI = (\<lambda>i. Inr ''ipfs://suppi''),
       registry_totalRegistered = Inr 3,
       registry_getAgent_v1 =
         (\<lambda>i. if 1 \<le> i \<and> i \<le> 4 then Inr (demoRecord_v1 i)
               else Inl (Error ''nonexistent token'')),
       registry_getLicenses =
         (\<lambda>i. if i = 4 then Inl (Error ''timeout'')
               else Inr [\<lparr> licenseType_v1 = ''MLO'', licenseNumber_v1 = ''154083'',
                           holder_v1 = ''Suppi'', jurisdiction_v1 = ''US'',
                           active_lic_v1 = (i = 2) \<rparr>]),
       registry_totalAgents = Inr 3,
       faucet_hasClaimed = (\<lambda>a. Inr False),
       faucet_totalClaims = Inr 1,
       clamsToken_totalSupply = Inr (1000000 * 10 ^ 18),
       clamsToken_balanceOf = (\<lambda>a. Inr 0) \<rparr>"

text \<open>A client as the constructor leaves it, with the default TTL.\<close>

definition fresh :: "cached Origin" where
  "fresh = Origin_constructor None"

definition fresh_v1 :: "cached_v1 Origin" where
  "fresh_v1 = Origin_constructor None"

text \<open>
  The records that the two variants assemble for identifier 2 of the demonstration
  registry, and those that \<open>getAgent\<close> of \<open>src/origin.ts\<close> assembles for identifiers
  1 and 4.
\<close>

definition demoAgent2 :: Agent where
  "demoAgent2 =
     \<lparr> id_agent = 2, name = ''Suppi'', agentType = ''guardian'', owner = ''0xABC'',
       birthBlock = 100, isVerified = True, trustLevel = 2,
       licenses = [\<lparr>type_lic = ''MLO'', id_lic = ''154083'', issuedAt = 1700000000\<rparr>],
       lineage = \<lparr>parentId = 0, depth = 1\<rparr>, tokenURI = ''ipfs://suppi'' \<rparr>"

definition demoAgent2_v1 :: Agent_v1 where
  "demoAgent2_v1 =
     \<lparr> id_v1 = 2, name_v1 = ''Suppi'', agentType_v1 = ''guardian'', platform_v1 = ''base'',
       owner_v1 = ''0xABC'', creator_v1 = ''0xdef'', parentAgentId_v1 = 0,
       humanPrincipal_v1 = ''0x0000000000000000000000000000000000000000'',
       lineageDepth_v1 = 0, birthTimestamp_v1 = 1700000000, active_v1 = True,
       trustLevel_v1 = 2,
       licenses_v1 = [\<lparr> licenseType_v1 = ''MLO'', licenseNumber_v1 = ''154083'',
                         holder_v1 = ''Suppi'', jurisdiction_v1 = ''US'',
                         active_lic_v1 = True \<rparr>],
       tokenURI_v1 = ''ipfs://suppi'' \<rparr>"

definition demoAgent1 :: Agent where
  "demoAgent1 =
     \<lparr> id_agent = 1, name = ''Suppi'', agentType = ''guardian'', owner = ''0xdef'',
       birthBlock = 100, isVerified = True, trustLevel = 2,
       licenses = [\<lparr>type_lic = ''MLO'', id_lic = ''154083'', issuedAt = 1700000000\<rparr>],
       lineage = \<lparr>parentId = 0, depth = 1\<rparr>, tokenURI = ''ipfs://suppi'' \<rparr>"


text \<open>The client after it resolved record 2 at instant 0: the entry expires at 30000.\<close>

definition stExpired :: "cached Origin" where
  "stExpired = snd (getAgent rpcDemo 0 0 2 fresh)"

section \<open>Properties of the cache\<close>

lemma getCache_calls: "calls (snd (getCache now key st)) = calls st"
  by (simp add: getCache_def split: option.splits)

lemma getCache_cacheTtl: "cacheTtl (snd (getCache now key st)) = cacheTtl st"
  by (simp add: getCache_def split: option.splits)

text \<open>
  C5. \<open>setCache\<close> stores the value under the key with \<open>expiresAt = now + cacheTtl\<close> and
  leaves every other key alone; \<open>cacheTtl\<close> is the value the constructor fixed, 30000
  when the configuration gives none, and no cache operation changes it; \<open>getCache\<close> on
  an entry whose \<open>expiresAt\<close> is before \<open>now\<close> deletes the entry and reports absent, and
  on any other entry returns its value and leaves the client as it was. Reading back a
  value stored at \<open>now\<close> at the instant \<open>t\<close> gives the value up to and including
  \<open>now + cacheTtl\<close> and absent after.
\<close>

theorem cache_contract:
  "cache (setCache now key v st) key = Some \<lparr>data = v, expiresAt = now + cacheTtl st\<rparr>
   \<and> (\<forall>k. k \<noteq> key \<longrightarrow> cache (setCache now key v st) k = cache st k)
   \<and> cacheTtl (setCache now key v st) = cacheTtl st
   \<and> cacheTtl (snd (getCache now key st)) = cacheTtl st
   \<and> cacheTtl (clearCache st) = cacheTtl st
   \<and> cacheTtl (Origin_constructor None :: 'v Origin) = 30000
   \<and> cacheTtl (Origin_constructor (Some cfg) :: 'v Origin)
       = (case cacheTtl_cfg cfg of None \<Rightarrow> 30000 | Some ttl \<Rightarrow> ttl)
   \<and> (\<forall>e. cache st key = Some e \<and> now > expiresAt e \<longrightarrow>
          getCache now key st = (None, st\<lparr>cache := (cache st)(key := None)\<rparr>))
   \<and> (\<forall>e. cache st key = Some e \<and> \<not> now > expiresAt e \<longrightarrow>
          getCache now key st = (Some (data e), st))
   \<and> getCache t key (setCache now key v st)
       = (if t > now + cacheTtl st
          then (None, (setCache now key v st)\<lparr>cache := (cache st)(key := None)\<rparr>)
          else (Some v, setCache now key v st))"
  by (simp add: setCache_def getCache_def clearCache_def Origin_constructor_def
           split: option.splits)

theorem cache_contract_witness:
  "fst (getCache 30001 ''stats'' (setCache 0 ''stats'' (7::nat) (Origin_constructor None))) = None
   \<and> fst (getCache 30000 ''stats'' (setCache 0 ''stats'' (7::nat) (Origin_constructor None)))
       = Some 7"
proof -
  let ?st = "setCache 0 ''stats'' (7::nat) (Origin_constructor None)"
  let ?e = "\<lparr>data = 7::nat, expiresAt = 30000\<rparr>"
  have c: "cache ?st ''stats'' = Some ?e"
    by (simp add: setCache_def Origin_constructor_def)
  have h1: "cache ?st ''stats'' = Some ?e \<and> 30001 > expiresAt ?e"
    using c by simp
  have h2: "cache ?st ''stats'' = Some ?e \<and> \<not> 30000 > expiresAt ?e"
    using c by simp
  from h1 cache_contract [of 30001 "''stats''" _ ?st]
  have "getCache 30001 ''stats'' ?st = (None, ?st\<lparr>cache := (cache ?st)(''stats'' := None)\<rparr>)"
    by blast
  moreover from h2 cache_contract [of 30000 "''stats''" _ ?st]
  have "getCache 30000 ''stats'' ?st = (Some (data ?e), ?st)"
    by blast
  ultimately show ?thesis by simp
qed

section \<open>Registration check\<close>

text \<open>
  C7. \<open>isRegistered\<close> returns true exactly when the ownership-count read for the address
  returns a nonzero count; when that read fails it returns false; it never raises.
\<close>

theorem isRegistered_iff:
  "(fst (isRegistered r address st) = Inr True
      \<longleftrightarrow> (\<exists>balance. registry_balanceOf r address = Inr balance \<and> balance \<noteq> 0))
   \<and> (\<forall>e. registry_balanceOf r address = Inl e
          \<longrightarrow> fst (isRegistered r address st) = Inr False)
   \<and> (\<exists>b. fst (isRegistered r address st) = Inr b)"
  by (auto simp add: isRegistered_def Let_def split: sum.splits)

theorem isRegistered_iff_witness:
  "registry_balanceOf rpcDown ''0xabc'' = Inl (Error ''rpc down'')
   \<and> fst (isRegistered rpcDown ''0xabc'' fresh) = Inr False
   \<and> fst (isRegistered rpcDemo ''0xABC'' fresh) = Inr True"
proof -
  have h: "registry_balanceOf rpcDown ''0xabc'' = Inl (Error ''rpc down'')"
    by (simp add: rpcDown_def)
  have h2: "\<exists>balance. registry_balanceOf rpcDemo ''0xABC'' = Inr balance \<and> balance \<noteq> 0"
    by (simp add: rpcDemo_def toLowerCase_def lowerChar_def)
  from isRegistered_iff [of rpcDown "''0xabc''" fresh] h
  have "fst (isRegistered rpcDown ''0xabc'' fresh) = Inr False"
    by blast
  moreover from isRegistered_iff [of rpcDemo "''0xABC''" fresh] h2
  have "fst (isRegistered rpcDemo ''0xABC'' fresh) = Inr True"
    by blast
  ultimately show ?thesis using h by simp
qed

section \<open>Record assembly: auxiliary facts\<close>

lemma assembleAgent_trust:
  "fst (assembleAgent r tokenId) = Some a \<Longrightarrow>
   trustLevel a = (if isVerified a \<and> licenses a \<noteq> [] then 2 else if isVerified a then 1 else 0)"
  by (cases "registry_getAgent r tokenId") (auto simp add: assembleAgent_def Let_def)

lemma assembleAgent_v1_reads:
  "fst (assembleAgent_v1 r tokenId) = Some a \<Longrightarrow>
   \<exists>core own uri. registry_getAgent_v1 r tokenId = Inr core
      \<and> registry_ownerOf r tokenId = Inr own \<and> registry_tokenURI r tokenId = Inr uri"
  by (cases "registry_getAgent_v1 r tokenId"; cases "registry_ownerOf r tokenId";
      cases "registry_tokenURI r tokenId")
     (simp_all add: assembleAgent_v1_def)

lemma License_v1_copy:
  "map (\<lambda>l. \<lparr> licenseType_v1 = licenseType_v1 l, licenseNumber_v1 = licenseNumber_v1 l,
               holder_v1 = holder_v1 l, jurisdiction_v1 = jurisdiction_v1 l,
               active_lic_v1 = active_lic_v1 l \<rparr>) (lics :: License_v1 list) = lics"
  by (induction lics) simp_all

lemma assembleAgent_v1_fields:
  assumes "fst (assembleAgent_v1 r tokenId) = Some a"
  shows "licenses_v1 a = (case registry_getLicenses r tokenId of Inl e \<Rightarrow> [] | Inr ls \<Rightarrow> ls)"
    and "trustLevel_v1 a =
           (if filter active_lic_v1 (licenses_v1 a) \<noteq> [] then 2
            else if humanPrincipal_v1 a \<noteq> ''0x0000000000000000000000000000000000000000'' then 1
            else 0)"
    and "id_v1 a = tokenId"
proof -
  from assembleAgent_v1_reads [OF assms] obtain core own uri where
    c: "registry_getAgent_v1 r tokenId = Inr core" and
    ow: "registry_ownerOf r tokenId = Inr own" and
    u: "registry_tokenURI r tokenId = Inr uri" by blast
  have l: "licenses_v1 (the (fst (assembleAgent_v1 r tokenId))) =
        (case registry_getLicenses r tokenId of Inl e \<Rightarrow> [] | Inr ls \<Rightarrow> ls)"
    by (simp add: assembleAgent_v1_def c ow u Let_def License_v1_copy)
  then show l': "licenses_v1 a = (case registry_getLicenses r tokenId of Inl e \<Rightarrow> [] | Inr ls \<Rightarrow> ls)"
    using assms by simp
  have "trustLevel_v1 (the (fst (assembleAgent_v1 r tokenId))) =
        (if filter active_lic_v1 (case registry_getLicenses r tokenId of Inl e \<Rightarrow> [] | Inr ls \<Rightarrow> ls) \<noteq> [] then 2
         else if humanPrincipal_v1 (the (fst (assembleAgent_v1 r tokenId)))
                   \<noteq> ''0x0000000000000000000000000000000000000000'' then 1
         else 0)"
    by (simp add: assembleAgent_v1_def c ow u Let_def)
  then show "trustLevel_v1 a =
           (if filter active_lic_v1 (licenses_v1 a) \<noteq> [] then 2
            else if humanPrincipal_v1 a \<noteq> ''0x0000000000000000000000000000000000000000'' then 1
            else 0)"
    using assms l' by simp
  have "id_v1 (the (fst (assembleAgent_v1 r tokenId))) = tokenId"
    by (simp add: assembleAgent_v1_def c ow u Let_def)
  then show "id_v1 a = tokenId"
    using assms by simp
qed

lemma licenseLoop_break:
  "i \<le> j \<Longrightarrow> j < count \<Longrightarrow> length ls = j
   \<Longrightarrow> \<forall>m. i \<le> m \<and> m < j \<longrightarrow> registry_getLicense r tokenId m = Inr (ls ! m)
   \<Longrightarrow> registry_getLicense r tokenId j = Inl e
   \<Longrightarrow> licenseLoop r tokenId i count lics cs =
        (lics @ map (\<lambda>lic. \<lparr>type_lic = fst lic, id_lic = fst (snd lic), issuedAt = snd (snd lic)\<rparr>)
                  (drop i ls),
         cs @ map (RegistryGetLicense tokenId) [i..<j] @ [RegistryGetLicense tokenId j])"
proof (induction r tokenId i count lics cs rule: licenseLoop.induct)
  case (1 r tokenId i count lics cs)
  show ?case
  proof (cases "i = j")
    case True
    with 1 show ?thesis
      by (subst licenseLoop.simps) simp
  next
    case False
    with 1 have lt: "i < j" by simp
    have here: "registry_getLicense r tokenId i = Inr (ls ! i)"
      using 1 lt by simp
    have d: "drop i ls = ls ! i # drop (i + 1) ls"
      using lt 1 by (simp add: Cons_nth_drop_Suc)
    have u: "[i..<j] = i # [i + 1..<j]"
      using lt by (simp add: upt_conv_Cons)
    have "licenseLoop r tokenId i count lics cs =
          licenseLoop r tokenId (i + 1) count
            (lics @ [\<lparr>type_lic = fst (ls ! i), id_lic = fst (snd (ls ! i)), issuedAt = snd (snd (ls ! i))\<rparr>])
            (cs @ [RegistryGetLicense tokenId i])"
      using 1 lt here by (subst licenseLoop.simps) simp
    also have "\<dots> = (lics @ map (\<lambda>lic. \<lparr>type_lic = fst lic, id_lic = fst (snd lic), issuedAt = snd (snd lic)\<rparr>)
                  (drop i ls),
         cs @ map (RegistryGetLicense tokenId) [i..<j] @ [RegistryGetLicense tokenId j])"
      using 1 lt here by (subst "1.IH"[of "ls ! i"]) (auto simp add: d u)
    finally show ?thesis .
  qed
qed



lemma getCache_hit_state:
  "fst (getCache now key st) = Some v \<Longrightarrow> snd (getCache now key st) = st"
  by (auto simp add: getCache_def split: option.splits if_splits)

lemma getAgent_miss:
  "fst (getCache tget (agentKey tokenId) st) = None \<Longrightarrow>
   getAgent r tget tset tokenId st =
     (case fst (assembleAgent r tokenId) of
        Some a \<Rightarrow> (Inr (Some a),
                   setCache tset (agentKey tokenId) (AgentData a)
                     (issue (snd (assembleAgent r tokenId)) (snd (getCache tget (agentKey tokenId) st))))
      | None \<Rightarrow> (Inr None,
                 issue (snd (assembleAgent r tokenId)) (snd (getCache tget (agentKey tokenId) st))))"
  by (simp add: getAgent_def Let_def)

lemma getAgent_v1_miss:
  "fst (getCache tget (agentKey tokenId) st) = None \<Longrightarrow>
   getAgent_v1 r tget tset tokenId st =
     (case fst (assembleAgent_v1 r tokenId) of
        Some a \<Rightarrow> (Inr (Some a),
                   setCache tset (agentKey tokenId) (AgentData_v1 a)
                     (issue (snd (assembleAgent_v1 r tokenId)) (snd (getCache tget (agentKey tokenId) st))))
      | None \<Rightarrow> (Inr None,
                 issue (snd (assembleAgent_v1 r tokenId)) (snd (getCache tget (agentKey tokenId) st))))"
  by (simp add: getAgent_v1_def Let_def)

lemma issue_fields [simp]:
  "cache (issue cs st) = cache st" "cacheTtl (issue cs st) = cacheTtl st"
  "calls (issue cs st) = calls st @ cs"
  by (simp_all add: issue_def)

lemma setCache_fields [simp]:
  "cacheTtl (setCache now key v st) = cacheTtl st" "calls (setCache now key v st) = calls st"
  by (simp_all add: setCache_def)

lemma assembleAgent_None:
  "registry_getAgent r tokenId = Inl e \<Longrightarrow> fst (assembleAgent r tokenId) = None"
  by (simp add: assembleAgent_def)

lemma assembleAgent_None_iff:
  "fst (assembleAgent r tokenId) = None \<longleftrightarrow> (\<exists>e. registry_getAgent r tokenId = Inl e)"
  by (cases "registry_getAgent r tokenId") (simp_all add: assembleAgent_def Let_def)


lemma assembleAgent_Some:
  assumes "registry_getAgent r tokenId = Inr d"
  shows "\<exists>a. fst (assembleAgent r tokenId) = Some a
          \<and> id_agent a = tokenId \<and> name a = fst d \<and> agentType a = fst (snd d)
          \<and> owner a = fst (snd (snd d)) \<and> birthBlock a = snd (snd (snd d))
          \<and> isVerified a = (case registry_isVerified r tokenId of Inl e \<Rightarrow> False | Inr v \<Rightarrow> v)
          \<and> lineage a = (case registry_getLineage r tokenId of
                            Inl e \<Rightarrow> \<lparr>parentId = 0, depth = 0\<rparr>
                          | Inr l \<Rightarrow> \<lparr>parentId = fst l, depth = snd l\<rparr>)
          \<and> licenses a = fst (licenseLoop r tokenId 0
                                  (case registry_getLicenseCount r tokenId of Inl e \<Rightarrow> 0 | Inr n \<Rightarrow> n)
                                  [] [])
          \<and> tokenURI a = (case registry_tokenURI r tokenId of Inl e \<Rightarrow> [] | Inr u \<Rightarrow> u)"
  using assms
  by (cases "registry_getLineage r tokenId") (simp_all add: assembleAgent_def Let_def)

lemma getAgent_miss_fst:
  "fst (getCache tget (agentKey tokenId) st) = None \<Longrightarrow>
   fst (getAgent r tget tset tokenId st) = Inr (fst (assembleAgent r tokenId))"
  by (cases "fst (assembleAgent r tokenId)") (simp_all add: getAgent_miss)

lemma getAgent_v1_miss_fst:
  "fst (getCache tget (agentKey tokenId) st) = None \<Longrightarrow>
   fst (getAgent_v1 r tget tset tokenId st) = Inr (fst (assembleAgent_v1 r tokenId))"
  by (cases "fst (assembleAgent_v1 r tokenId)") (simp_all add: getAgent_v1_miss)

lemma fresh_miss: "fst (getCache now key fresh) = None"
  by (simp add: fresh_def Origin_constructor_def getCache_def)

lemma fresh_v1_miss: "fst (getCache now key fresh_v1) = None"
  by (simp add: fresh_v1_def Origin_constructor_def getCache_def)

lemma assembleAgent_demo2:
  "assembleAgent rpcDemo 2 =
     (Some demoAgent2,
      [RegistryGetAgent 2, RegistryIsVerified 2, RegistryGetLineage 2,
       RegistryGetLicenseCount 2, RegistryTokenURI 2, RegistryGetLicense 2 0])"
  by (simp add: assembleAgent_def rpcDemo_def demoAgent2_def licenseLoop.simps)

lemma assembleAgent_v1_demo2:
  "assembleAgent_v1 rpcDemo 2 =
     (Some demoAgent2_v1,
      [RegistryGetAgent 2, RegistryGetLicenses 2, RegistryOwnerOf 2, RegistryTokenURI 2])"
  by (simp add: assembleAgent_v1_def rpcDemo_def demoAgent2_v1_def demoRecord_v1_def)

section \<open>Trust level\<close>

text \<open>
  C1, as the code has it. A record assembled by the variant of \<open>src/origin.ts\<close> has
  trust level 2 exactly when it is verified and carries at least one license, 1 when it is
  verified and carries none, and 0 when it is not verified, whatever its licenses. A
  record assembled by the other variant has trust level 2 when at least one of its
  licenses is active, whatever its human principal; 1 when none is active and the human
  principal is not the zero address; 0 otherwise.
\<close>

theorem trustLevel_derivation:
  "(fst (getCache tget (agentKey tokenId) st) = None
      \<and> fst (getAgent r tget tset tokenId st) = Inr (Some a)
     \<longrightarrow> trustLevel a = (if isVerified a \<and> licenses a \<noteq> [] then 2
                          else if isVerified a then 1 else 0))
   \<and> (fst (getCache tget (agentKey tokenId) st1) = None
      \<and> fst (getAgent_v1 r tget tset tokenId st1) = Inr (Some b)
     \<longrightarrow> trustLevel_v1 b =
           (if \<exists>l \<in> set (licenses_v1 b). active_lic_v1 l then 2
            else if humanPrincipal_v1 b \<noteq> ''0x0000000000000000000000000000000000000000''
            then 1 else 0))"
proof (intro conjI impI)
  assume h: "fst (getCache tget (agentKey tokenId) st) = None
      \<and> fst (getAgent r tget tset tokenId st) = Inr (Some a)"
  then have m: "fst (getCache tget (agentKey tokenId) st) = None"
    and g: "fst (getAgent r tget tset tokenId st) = Inr (Some a)"
    by simp_all
  from getAgent_miss_fst [OF m, of r tset] g
  have "fst (assembleAgent r tokenId) = Some a"
    by simp
  then show "trustLevel a = (if isVerified a \<and> licenses a \<noteq> [] then 2
                          else if isVerified a then 1 else 0)"
    by (rule assembleAgent_trust)
next
  assume h: "fst (getCache tget (agentKey tokenId) st1) = None
      \<and> fst (getAgent_v1 r tget tset tokenId st1) = Inr (Some b)"
  then have m: "fst (getCache tget (agentKey tokenId) st1) = None"
    and g: "fst (getAgent_v1 r tget tset tokenId st1) = Inr (Some b)"
    by simp_all
  from getAgent_v1_miss_fst [OF m, of r tset] g
  have "fst (assembleAgent_v1 r tokenId) = Some b"
    by simp
  from assembleAgent_v1_fields(2) [OF this]
  show "trustLevel_v1 b =
           (if \<exists>l \<in> set (licenses_v1 b). active_lic_v1 l then 2
            else if humanPrincipal_v1 b \<noteq> ''0x0000000000000000000000000000000000000000''
            then 1 else 0)"
    by (simp add: filter_empty_conv)
qed

theorem trustLevel_derivation_witness:
  "fst (getCache 0 (agentKey 2) fresh) = None
   \<and> fst (getAgent rpcDemo 0 0 2 fresh) = Inr (Some demoAgent2)
   \<and> trustLevel demoAgent2 = 2
   \<and> fst (getCache 0 (agentKey 2) fresh_v1) = None
   \<and> fst (getAgent_v1 rpcDemo 0 0 2 fresh_v1) = Inr (Some demoAgent2_v1)
   \<and> trustLevel_v1 demoAgent2_v1 = 2"
proof -
  have g: "fst (getAgent rpcDemo 0 0 2 fresh) = Inr (Some demoAgent2)"
    by (simp add: getAgent_miss_fst fresh_miss assembleAgent_demo2)
  have g1: "fst (getAgent_v1 rpcDemo 0 0 2 fresh_v1) = Inr (Some demoAgent2_v1)"
    by (simp add: getAgent_v1_miss_fst fresh_v1_miss assembleAgent_v1_demo2)
  from trustLevel_derivation [of 0 2 fresh rpcDemo 0 demoAgent2 fresh_v1 demoAgent2_v1]
    g g1 fresh_miss fresh_v1_miss
  have "trustLevel demoAgent2 = (if isVerified demoAgent2 \<and> licenses demoAgent2 \<noteq> [] then 2
                          else if isVerified demoAgent2 then 1 else 0)"
    and "trustLevel_v1 demoAgent2_v1 =
           (if \<exists>l \<in> set (licenses_v1 demoAgent2_v1). active_lic_v1 l then 2
            else if humanPrincipal_v1 demoAgent2_v1 \<noteq> ''0x0000000000000000000000000000000000000000''
            then 1 else 0)"
    by blast+
  then show ?thesis
    using g g1 fresh_miss fresh_v1_miss by (simp add: demoAgent2_def demoAgent2_v1_def)
qed

text \<open>
  Record 3 of the demonstration registry is not verified and carries one license (the
  licenses of this variant have no \<open>active\<close> field): its trust level is 0, not 2.
\<close>

theorem trustLevel_unverified_licensed:
  "fst (getAgent rpcDemo 0 0 3 fresh) =
     Inr (Some \<lparr> id_agent = 3, name = ''Suppi'', agentType = ''guardian'', owner = ''0xdef'',
                  birthBlock = 100, isVerified = False, trustLevel = 0,
                  licenses = [\<lparr>type_lic = ''MLO'', id_lic = ''154083'', issuedAt = 1700000000\<rparr>],
                  lineage = \<lparr>parentId = 0, depth = 1\<rparr>, tokenURI = ''ipfs://suppi'' \<rparr>)"
  by (simp add: getAgent_miss_fst fresh_miss assembleAgent_def rpcDemo_def licenseLoop.simps)

lemma getAgent_miss_cached:
  assumes "fst (getCache tget (agentKey tokenId) st) = None"
    and "fst (assembleAgent r tokenId) = Some a"
  shows "cache (snd (getAgent r tget tset tokenId st)) (agentKey tokenId)
           = Some \<lparr>data = AgentData a, expiresAt = tset + cacheTtl st\<rparr>"
    and "calls (snd (getAgent r tget tset tokenId st)) = calls st @ snd (assembleAgent r tokenId)"
  using assms by (simp_all add: getAgent_miss setCache_def getCache_cacheTtl getCache_calls)

section \<open>License reads that fail partway\<close>

text \<open>
  C10. On a cache miss, when the core record and the license count \<open>count\<close> are read and
  the license reads at the indices below \<open>j < count\<close> succeed while the read at \<open>j\<close>
  fails, \<open>getAgent\<close> returns a record whose licenses are exactly those read at the
  indices \<open>0\<close> to \<open>j - 1\<close>, in that order; the record is stored in the cache; no license
  read is issued beyond index \<open>j\<close>.
\<close>

theorem getAgent_license_prefix:
  assumes miss: "fst (getCache tget (agentKey tokenId) st) = None"
    and core: "registry_getAgent r tokenId = Inr d"
    and cnt: "registry_getLicenseCount r tokenId = Inr count"
    and j: "j < count" "length ls = j"
    and ok: "\<forall>m < j. registry_getLicense r tokenId m = Inr (ls ! m)"
    and bad: "registry_getLicense r tokenId j = Inl e"
  shows "\<exists>a. fst (getAgent r tget tset tokenId st) = Inr (Some a)
           \<and> licenses a = map (\<lambda>lic. \<lparr>type_lic = fst lic, id_lic = fst (snd lic),
                                        issuedAt = snd (snd lic)\<rparr>) ls
           \<and> cache (snd (getAgent r tget tset tokenId st)) (agentKey tokenId)
               = Some \<lparr>data = AgentData a, expiresAt = tset + cacheTtl st\<rparr>
           \<and> calls (snd (getAgent r tget tset tokenId st))
               = calls st
                 @ [RegistryGetAgent tokenId, RegistryIsVerified tokenId,
                    RegistryGetLineage tokenId, RegistryGetLicenseCount tokenId,
                    RegistryTokenURI tokenId]
                 @ map (RegistryGetLicense tokenId) [0..<j] @ [RegistryGetLicense tokenId j]"
proof -
  have loop: "licenseLoop r tokenId 0 count [] [] =
        (map (\<lambda>lic. \<lparr>type_lic = fst lic, id_lic = fst (snd lic), issuedAt = snd (snd lic)\<rparr>) ls,
         map (RegistryGetLicense tokenId) [0..<j] @ [RegistryGetLicense tokenId j])"
    using licenseLoop_break [of 0 j count ls r tokenId e "[]" "[]"] j ok bad by simp
  from assembleAgent_Some [OF core] obtain a where
    a: "fst (assembleAgent r tokenId) = Some a" and
    l: "licenses a = fst (licenseLoop r tokenId 0
                            (case registry_getLicenseCount r tokenId of Inl e \<Rightarrow> 0 | Inr n \<Rightarrow> n)
                            [] [])"
    by blast
  have l': "licenses a = map (\<lambda>lic. \<lparr>type_lic = fst lic, id_lic = fst (snd lic),
                                        issuedAt = snd (snd lic)\<rparr>) ls"
    using l cnt loop by simp
  have cs: "snd (assembleAgent r tokenId) =
              [RegistryGetAgent tokenId, RegistryIsVerified tokenId,
               RegistryGetLineage tokenId, RegistryGetLicenseCount tokenId,
               RegistryTokenURI tokenId]
              @ map (RegistryGetLicense tokenId) [0..<j] @ [RegistryGetLicense tokenId j]"
    using core cnt loop by (simp add: assembleAgent_def Let_def)
  have "fst (getAgent r tget tset tokenId st) = Inr (Some a)"
    using getAgent_miss_fst [OF miss, of r tset] a by simp
  moreover note l' getAgent_miss_cached(1) [OF miss a, of tset]
  moreover have "calls (snd (getAgent r tget tset tokenId st))
               = calls st
                 @ [RegistryGetAgent tokenId, RegistryIsVerified tokenId,
                    RegistryGetLineage tokenId, RegistryGetLicenseCount tokenId,
                    RegistryTokenURI tokenId]
                 @ map (RegistryGetLicense tokenId) [0..<j] @ [RegistryGetLicense tokenId j]"
    using getAgent_miss_cached(2) [OF miss a, of tset] cs by simp
  ultimately show ?thesis by blast
qed

lemma assembleAgent_demo1:
  "assembleAgent rpcDemo 1 =
     (Some demoAgent1,
      [RegistryGetAgent 1, RegistryIsVerified 1, RegistryGetLineage 1,
       RegistryGetLicenseCount 1, RegistryTokenURI 1, RegistryGetLicense 1 0,
       RegistryGetLicense 1 1])"
  by (simp add: assembleAgent_def rpcDemo_def demoAgent1_def licenseLoop.simps)

theorem getAgent_license_prefix_witness:
  "fst (getCache 0 (agentKey 1) fresh) = None
   \<and> registry_getLicenseCount rpcDemo 1 = Inr 3
   \<and> registry_getLicense rpcDemo 1 0 = Inr (''MLO'', ''154083'', 1700000000)
   \<and> registry_getLicense rpcDemo 1 1 = Inl (Error ''timeout'')
   \<and> fst (getAgent rpcDemo 0 0 1 fresh) = Inr (Some demoAgent1)
   \<and> licenses demoAgent1 = [\<lparr>type_lic = ''MLO'', id_lic = ''154083'', issuedAt = 1700000000\<rparr>]
   \<and> cache (snd (getAgent rpcDemo 0 0 1 fresh)) (agentKey 1)
       = Some \<lparr>data = AgentData demoAgent1, expiresAt = 30000\<rparr>"
proof -
  have core: "registry_getAgent rpcDemo 1 = Inr (''Suppi'', ''guardian'', ''0xdef'', 100)"
    by (simp add: rpcDemo_def)
  have cnt: "registry_getLicenseCount rpcDemo 1 = Inr 3"
    by (simp add: rpcDemo_def)
  have ok: "\<forall>m < 1. registry_getLicense rpcDemo 1 m = Inr ([(''MLO'', ''154083'', 1700000000)] ! m)"
    by (simp add: rpcDemo_def)
  have bad: "registry_getLicense rpcDemo 1 1 = Inl (Error ''timeout'')"
    by (simp add: rpcDemo_def)
  have g: "fst (getAgent rpcDemo 0 0 1 fresh) = Inr (Some demoAgent1)"
    by (simp add: getAgent_miss_fst fresh_miss assembleAgent_demo1)
  from getAgent_license_prefix [OF fresh_miss core cnt _ _ ok bad, of 0 0]
  obtain a where "fst (getAgent rpcDemo 0 0 1 fresh) = Inr (Some a)"
    and "licenses a = [\<lparr>type_lic = ''MLO'', id_lic = ''154083'', issuedAt = 1700000000\<rparr>]"
    and "cache (snd (getAgent rpcDemo 0 0 1 fresh)) (agentKey 1)
           = Some \<lparr>data = AgentData a, expiresAt = 0 + cacheTtl fresh\<rparr>"
    by auto
  then show ?thesis
    using g cnt ok bad fresh_miss
    by (simp add: fresh_def Origin_constructor_def rpcDemo_def)
qed



lemma getAgent_v1_miss_cached:
  assumes "fst (getCache tget (agentKey tokenId) st) = None"
    and "fst (assembleAgent_v1 r tokenId) = Some a"
  shows "cache (snd (getAgent_v1 r tget tset tokenId st)) (agentKey tokenId)
           = Some \<lparr>data = AgentData_v1 a, expiresAt = tset + cacheTtl st\<rparr>"
    and "calls (snd (getAgent_v1 r tget tset tokenId st)) = calls st @ snd (assembleAgent_v1 r tokenId)"
  using assms by (simp_all add: getAgent_v1_miss setCache_def getCache_cacheTtl getCache_calls)



section \<open>Fault tolerance of the record assembly\<close>





lemma stExpired_entry:
  "cache stExpired (agentKey 2) = Some \<lparr>data = AgentData demoAgent2, expiresAt = 30000\<rparr>"
  using getAgent_miss_cached(1) [OF fresh_miss, of rpcDemo 2 demoAgent2 0 0]
  by (simp add: stExpired_def assembleAgent_demo2 fresh_def Origin_constructor_def)





section \<open>Verification of an address without record\<close>

text \<open>
  C6, as the code has it. When the ownership-count read for the address returns zero,
  \<open>verifyAgent\<close> returns \<open>verified: false\<close>, trust level 0, no agent, and the error
  \<open>No Birth Certificate found for this address\<close>; the count read is the only remote
  read it issues, and the cache is left as it was. Both variants agree.
\<close>

theorem verifyAgent_zero_balance:
  assumes "registry_balanceOf r address = Inr 0"
  shows "verifyAgent r tget tset address st =
           (Inr \<lparr> verified = False, trustLevel_res = 0, agent = None,
                   error = Some ''No Birth Certificate found for this address'' \<rparr>,
            st\<lparr>calls := calls st @ [RegistryBalanceOf address]\<rparr>)
         \<and> verifyAgent_v1 r tget tset address st1 =
           (Inr \<lparr> verified = False, trustLevel_res = 0, agent = None,
                   error = Some ''No Birth Certificate found for this address'' \<rparr>,
            st1\<lparr>calls := calls st1 @ [RegistryBalanceOf address]\<rparr>)"
  using assms by (simp add: verifyAgent_def verifyAgent_v1_def issue_def)

theorem verifyAgent_zero_balance_witness:
  "registry_balanceOf rpcDemo ''0x123'' = Inr 0
   \<and> fst (verifyAgent rpcDemo 0 0 ''0x123'' fresh) =
        Inr \<lparr> verified = False, trustLevel_res = 0, agent = None,
               error = Some ''No Birth Certificate found for this address'' \<rparr>
   \<and> calls (snd (verifyAgent rpcDemo 0 0 ''0x123'' fresh)) = [RegistryBalanceOf ''0x123'']
   \<and> calls (snd (verifyAgent_v1 rpcDemo 0 0 ''0x123'' fresh_v1)) = [RegistryBalanceOf ''0x123'']"
proof -
  have z: "registry_balanceOf rpcDemo ''0x123'' = Inr 0"
    by (simp add: rpcDemo_def toLowerCase_def lowerChar_def)
  from verifyAgent_zero_balance [OF z, of 0 0 fresh fresh_v1] z show ?thesis
    by (simp add: fresh_def fresh_v1_def Origin_constructor_def)
qed

text \<open>
  The address \<open>0x123\<close> holds no record in the demonstration registry. The error of the
  result does not contain \<open>not registered\<close>.
\<close>

theorem verifyAgent_zero_balance_message:
  "registry_balanceOf rpcDemo ''0x123'' = Inr 0
   \<and> fst (verifyAgent rpcDemo 0 0 ''0x123'' fresh) =
        Inr \<lparr> verified = False, trustLevel_res = 0, agent = None,
               error = Some ''No Birth Certificate found for this address'' \<rparr>
   \<and> \<not> includes_str ''No Birth Certificate found for this address'' ''not registered''"
  by (simp add: verifyAgent_def rpcDemo_def toLowerCase_def lowerChar_def)

section \<open>Which operations raise\<close>

lemma getAgent_returns: "\<exists>v. fst (getAgent r tget tset tokenId st) = Inr v"
  by (simp add: getAgent_def Let_def split: option.splits cached.splits)

lemma getAgent_v1_returns: "\<exists>v. fst (getAgent_v1 r tget tset tokenId st) = Inr v"
  by (simp add: getAgent_v1_def Let_def split: option.splits cached_v1.splits)

lemma ownerScan_returns: "\<exists>v. fst (ownerScan r tget tset a i st) = Inr v"
proof (induction r tget tset a i st rule: ownerScan.induct)
  case (1 r tget tset a i st)
  show ?case
  proof (cases "i \<ge> 1")
    case False
    then show ?thesis by (subst ownerScan.simps) simp
  next
    case True
    show ?thesis
    proof (cases "registry_ownerOf r i")
      case (Inl e)
      with True "1.IH" show ?thesis
        by (subst ownerScan.simps) (simp add: Let_def)
    next
      case (Inr own)
      show ?thesis
      proof (cases "toLowerCase own = a")
        case m: True
        with True Inr getAgent_returns show ?thesis
          by (subst ownerScan.simps) (simp add: Let_def)
      next
        case m: False
        with True Inr "1.IH" show ?thesis
          by (subst ownerScan.simps) (simp add: Let_def)
      qed
    qed
  qed
qed

lemma findAgentByOwner_raises_iff:
  "fst (findAgentByOwner r tget tset address st) = Inl e \<longleftrightarrow> registry_totalRegistered r = Inl e"
proof (cases "registry_totalRegistered r")
  case (Inl x)
  then show ?thesis by (simp add: findAgentByOwner_def getTotalRegistered_def)
next
  case (Inr n)
  obtain v where "fst (ownerScan r tget tset (toLowerCase address) (int n)
                         (issue [RegistryTotalRegistered] st)) = Inr v"
    using ownerScan_returns by blast
  with Inr show ?thesis by (simp add: findAgentByOwner_def getTotalRegistered_def)
qed

lemma verifyAgent_returns:
  "\<exists>v. fst (verifyAgent r tget tset address st) = Inr v \<and> (verified v \<longleftrightarrow> error v = None)"
  by (simp add: verifyAgent_def Let_def verificationFailed_def split: sum.splits option.splits)

lemma verifyAgentById_returns:
  "\<exists>v. fst (verifyAgentById r tget tset tokenId st) = Inr v \<and> (verified v \<longleftrightarrow> error v = None)"
  by (simp add: verifyAgentById_def Let_def verificationFailed_def split: sum.splits option.splits)

lemma hasClaimed_returns:
  "fst (hasClaimed r address st) =
     Inr (case faucet_hasClaimed r address of Inr claimed \<Rightarrow> claimed | Inl e \<Rightarrow> False)"
  by (simp add: hasClaimed_def Let_def split: sum.splits)

lemma getStats_raises_iff:
  "fst (getStats r tget tset st) = Inl e \<longleftrightarrow>
     (\<forall>s. fst (getCache tget ''stats'' st) \<noteq> Some (StatsData s)) \<and> registry_totalRegistered r = Inl e"
  by (auto simp add: getStats_def Let_def split: option.splits cached.splits sum.splits)

lemma getClamsBalance_raises_iff:
  "fst (getClamsBalance r address st) = Inl e \<longleftrightarrow> clamsToken_balanceOf r address = Inl e"
  by (simp add: getClamsBalance_def Let_def split: sum.splits)

text \<open>
  C2, as the code has it. \<open>verifyAgent\<close>, \<open>verifyAgentById\<close>, \<open>isRegistered\<close>,
  \<open>hasClaimed\<close> and \<open>getAgent\<close> return for every input and every pattern of read
  failures; a verification result carries an error exactly when it is not verified;
  \<open>isRegistered\<close> and \<open>hasClaimed\<close> return false when their read fails, and \<open>getAgent\<close>
  returns absent when, on a cache miss, the read of the core record fails.
  \<open>findAgentByOwner\<close> raises exactly when the read of the total count fails, with the
  error of that read; \<open>getStats\<close> raises exactly when the statistics are not served from
  the cache and the read of the total count fails; \<open>getClamsBalance\<close> raises exactly
  when the read of the balance fails.
\<close>

theorem public_operations_raise:
  "(\<exists>v. fst (verifyAgent r tget tset address st) = Inr v \<and> (verified v \<longleftrightarrow> error v = None))
   \<and> (\<exists>v. fst (verifyAgentById r tget tset tokenId st) = Inr v
          \<and> (verified v \<longleftrightarrow> error v = None))
   \<and> (\<exists>b. fst (isRegistered r address st) = Inr b)
   \<and> (\<exists>b. fst (hasClaimed r address st) = Inr b)
   \<and> (\<exists>a. fst (getAgent r tget tset tokenId st) = Inr a)
   \<and> (fst (findAgentByOwner r tget tset address st) = Inl e
        \<longleftrightarrow> registry_totalRegistered r = Inl e)
   \<and> (fst (getStats r tget tset st) = Inl e
        \<longleftrightarrow> (\<forall>s. fst (getCache tget ''stats'' st) \<noteq> Some (StatsData s))
            \<and> registry_totalRegistered r = Inl e)
   \<and> (fst (getClamsBalance r address st) = Inl e
        \<longleftrightarrow> clamsToken_balanceOf r address = Inl e)
   \<and> (\<forall>x. registry_balanceOf r address = Inl x
          \<longrightarrow> fst (isRegistered r address st) = Inr False)
   \<and> (\<forall>x. faucet_hasClaimed r address = Inl x
          \<longrightarrow> fst (hasClaimed r address st) = Inr False)
   \<and> (\<forall>x. fst (getCache tget (agentKey tokenId) st) = None
            \<and> registry_getAgent r tokenId = Inl x
          \<longrightarrow> fst (getAgent r tget tset tokenId st) = Inr None)"
proof -
  have "\<exists>b. fst (isRegistered r address st) = Inr b"
    by (cases "registry_balanceOf r address") (auto simp add: isRegistered_def)
  moreover have "\<exists>b. fst (hasClaimed r address st) = Inr b"
    by (simp add: hasClaimed_returns)
  moreover have "\<forall>x. registry_balanceOf r address = Inl x
          \<longrightarrow> fst (isRegistered r address st) = Inr False"
    by (simp add: isRegistered_def)
  moreover have "\<forall>x. faucet_hasClaimed r address = Inl x
          \<longrightarrow> fst (hasClaimed r address st) = Inr False"
    by (simp add: hasClaimed_returns)
  moreover have "\<forall>x. fst (getCache tget (agentKey tokenId) st) = None
            \<and> registry_getAgent r tokenId = Inl x
          \<longrightarrow> fst (getAgent r tget tset tokenId st) = Inr None"
    by (simp add: getAgent_miss_fst assembleAgent_None)
  moreover note verifyAgent_returns [of r tget tset address st]
    verifyAgentById_returns [of r tget tset tokenId st]
    getAgent_returns [of r tget tset tokenId st]
    findAgentByOwner_raises_iff [of r tget tset address st e]
    getStats_raises_iff [of r tget tset st e]
    getClamsBalance_raises_iff [of r address st e]
  ultimately show ?thesis by blast
qed

theorem public_operations_raise_witness:
  "fst (getStats rpcDown 0 0 fresh) = Inl (Error ''rpc down'')
   \<and> fst (getStats rpcDemo 0 0 fresh) \<noteq> Inl (Error ''rpc down'')
   \<and> fst (getClamsBalance rpcDemo ''0xabc'' fresh) \<noteq> Inl (Error ''rpc down'')
   \<and> registry_balanceOf rpcDown ''0xabc'' = Inl (Error ''rpc down'')
   \<and> fst (isRegistered rpcDown ''0xabc'' fresh) = Inr False
   \<and> faucet_hasClaimed rpcDown ''0xabc'' = Inl (Error ''rpc down'')
   \<and> fst (hasClaimed rpcDown ''0xabc'' fresh) = Inr False
   \<and> fst (getCache 0 (agentKey 2) fresh) = None
   \<and> registry_getAgent rpcDown 2 = Inl (Error ''rpc down'')
   \<and> fst (getAgent rpcDown 0 0 2 fresh) = Inr None"
proof -
  have f: "registry_balanceOf rpcDown ''0xabc'' = Inl (Error ''rpc down'')"
    "faucet_hasClaimed rpcDown ''0xabc'' = Inl (Error ''rpc down'')"
    "registry_getAgent rpcDown 2 = Inl (Error ''rpc down'')"
    by (simp_all add: rpcDown_def)
  have k: "fst (getCache 0 (agentKey 2) fresh) = None"
    by (rule fresh_miss)
  from public_operations_raise [of rpcDown 0 0 "''0xabc''" fresh 2 "Error ''rpc down''"] f k
  have dflt: "fst (isRegistered rpcDown ''0xabc'' fresh) = Inr False"
    "fst (hasClaimed rpcDown ''0xabc'' fresh) = Inr False"
    "fst (getAgent rpcDown 0 0 2 fresh) = Inr None"
    by blast+
  have m: "\<forall>s. fst (getCache 0 ''stats'' fresh) \<noteq> Some (StatsData s)"
    by (simp add: fresh_miss)
  have d: "registry_totalRegistered rpcDown = Inl (Error ''rpc down'')"
    by (simp add: rpcDown_def)
  have u: "registry_totalRegistered rpcDemo \<noteq> Inl (Error ''rpc down'')"
    "clamsToken_balanceOf rpcDemo ''0xabc'' \<noteq> Inl (Error ''rpc down'')"
    by (simp_all add: rpcDemo_def)
  from public_operations_raise [of rpcDown 0 0 "''0xabc''" fresh 2 "Error ''rpc down''"] m d
  have "fst (getStats rpcDown 0 0 fresh) = Inl (Error ''rpc down'')"
    by blast
  moreover
  from public_operations_raise [of rpcDemo 0 0 "''0xabc''" fresh 2 "Error ''rpc down''"] u
  have "fst (getStats rpcDemo 0 0 fresh) \<noteq> Inl (Error ''rpc down'')"
    and "fst (getClamsBalance rpcDemo ''0xabc'' fresh) \<noteq> Inl (Error ''rpc down'')"
    by blast+
  ultimately show ?thesis using dflt f k by simp
qed

text \<open>
  With a ledger that cannot be read, \<open>getClamsBalance\<close>, \<open>getStats\<close> and
  \<open>findAgentByOwner\<close> raise the error of the failed read to their caller.
\<close>

theorem operations_that_raise:
  "fst (getClamsBalance rpcDown ''0xabc'' fresh) = Inl (Error ''rpc down'')
   \<and> fst (getStats rpcDown 0 0 fresh) = Inl (Error ''rpc down'')
   \<and> fst (findAgentByOwner rpcDown 0 0 ''0xabc'' fresh) = Inl (Error ''rpc down'')"
  by (simp add: getClamsBalance_def getStats_def findAgentByOwner_def getTotalRegistered_def
        rpcDown_def fresh_miss)

section \<open>The owner scan\<close>

lemma issue_Nil [simp]: "issue [] st = st"
  by (simp add: issue_def)

lemma issue_issue [simp]: "issue cs (issue ds st) = issue (ds @ cs) st"
  by (simp add: issue_def)

lemma ownerScan_nonpositive: "i < 1 \<Longrightarrow> ownerScan r tget tset a i st = (Inr None, st)"
  by (subst ownerScan.simps) simp

lemma ownerScan_no_match:
  "1 \<le> i \<Longrightarrow> \<not> ownedBy r address i \<Longrightarrow>
   ownerScan r tget tset (toLowerCase address) i st =
     ownerScan r tget tset (toLowerCase address) (i - 1) (issue [RegistryOwnerOf i] st)"
  by (subst ownerScan.simps) (simp add: ownedBy_def Let_def split: sum.splits)

lemma ownerScan_match:
  "1 \<le> i \<Longrightarrow> ownedBy r address i \<Longrightarrow>
   ownerScan r tget tset (toLowerCase address) i st =
     getAgent r tget tset i (issue [RegistryOwnerOf i] st)"
  by (subst ownerScan.simps) (simp add: ownedBy_def Let_def split: sum.splits)

lemma ownerScan_skip:
  assumes "0 \<le> k" "k \<le> n"
    and "\<forall>j. k < j \<and> j \<le> n \<longrightarrow> \<not> ownedBy r address j"
  shows "ownerScan r tget tset (toLowerCase address) n st =
           ownerScan r tget tset (toLowerCase address) k
             (issue (map RegistryOwnerOf (rev [k + 1..n])) st)"
  using assms(2,3)
proof (induction n arbitrary: st rule: int_ge_induct)
  case base
  then show ?case by simp
next
  case (step n)
  have n1: "1 \<le> n + 1" using assms(1) step.hyps by simp
  have nm: "\<not> ownedBy r address (n + 1)" using step.prems step.hyps by simp
  have u: "[k + 1..n + 1] = [k + 1..n] @ [n + 1]"
    using step.hyps by (simp add: upto_rec2)
  have "ownerScan r tget tset (toLowerCase address) (n + 1) st =
        ownerScan r tget tset (toLowerCase address) n (issue [RegistryOwnerOf (n + 1)] st)"
    using ownerScan_no_match [OF n1 nm] by simp
  also have "\<dots> = ownerScan r tget tset (toLowerCase address) k
             (issue (map RegistryOwnerOf (rev [k + 1..n])) (issue [RegistryOwnerOf (n + 1)] st))"
    using step.prems by (intro step.IH) simp
  finally show ?case by (simp add: u)
qed

lemma ownerScan_v1_nonpositive: "i < 1 \<Longrightarrow> ownerScan_v1 r tget tset a i st = (Inr None, st)"
  by (subst ownerScan_v1.simps) simp

lemma ownerScan_v1_no_match:
  "1 \<le> i \<Longrightarrow> \<not> ownedBy r address i \<Longrightarrow>
   ownerScan_v1 r tget tset (toLowerCase address) i st =
     ownerScan_v1 r tget tset (toLowerCase address) (i - 1) (issue [RegistryOwnerOf i] st)"
  by (subst ownerScan_v1.simps) (simp add: ownedBy_def Let_def split: sum.splits)

lemma ownerScan_v1_match:
  "1 \<le> i \<Longrightarrow> ownedBy r address i \<Longrightarrow>
   ownerScan_v1 r tget tset (toLowerCase address) i st =
     getAgent_v1 r tget tset i (issue [RegistryOwnerOf i] st)"
  by (subst ownerScan_v1.simps) (simp add: ownedBy_def Let_def split: sum.splits)

lemma ownerScan_v1_skip:
  assumes "0 \<le> k" "k \<le> n"
    and "\<forall>j. k < j \<and> j \<le> n \<longrightarrow> \<not> ownedBy r address j"
  shows "ownerScan_v1 r tget tset (toLowerCase address) n st =
           ownerScan_v1 r tget tset (toLowerCase address) k
             (issue (map RegistryOwnerOf (rev [k + 1..n])) st)"
  using assms(2,3)
proof (induction n arbitrary: st rule: int_ge_induct)
  case base
  then show ?case by simp
next
  case (step n)
  have n1: "1 \<le> n + 1" using assms(1) step.hyps by simp
  have nm: "\<not> ownedBy r address (n + 1)" using step.prems step.hyps by simp
  have u: "[k + 1..n + 1] = [k + 1..n] @ [n + 1]"
    using step.hyps by (simp add: upto_rec2)
  have "ownerScan_v1 r tget tset (toLowerCase address) (n + 1) st =
        ownerScan_v1 r tget tset (toLowerCase address) n (issue [RegistryOwnerOf (n + 1)] st)"
    using ownerScan_v1_no_match [OF n1 nm] by simp
  also have "\<dots> = ownerScan_v1 r tget tset (toLowerCase address) k
             (issue (map RegistryOwnerOf (rev [k + 1..n])) (issue [RegistryOwnerOf (n + 1)] st))"
    using step.prems by (intro step.IH) simp
  finally show ?case by (simp add: u)
qed

lemma findAgentByOwner_found:
  assumes tot: "registry_totalRegistered r = Inr N"
    and k: "1 \<le> k" "k \<le> int N"
    and own: "ownedBy r address k"
    and others: "\<forall>j \<in> {1..int N}. j \<noteq> k \<longrightarrow> \<not> ownedBy r address j"
  shows "findAgentByOwner r tget tset address st =
           getAgent r tget tset k
             (issue (RegistryTotalRegistered # map RegistryOwnerOf (rev [k..int N])) st)"
proof -
  have o: "\<forall>j. k < j \<and> j \<le> int N \<longrightarrow> \<not> ownedBy r address j"
    using others k by auto
  have u: "[k..int N] = k # [k + 1..int N]"
    using k by (simp add: upto_rec1)
  have "findAgentByOwner r tget tset address st =
        ownerScan r tget tset (toLowerCase address) (int N) (issue [RegistryTotalRegistered] st)"
    by (simp add: findAgentByOwner_def getTotalRegistered_def tot)
  also have "\<dots> = ownerScan r tget tset (toLowerCase address) k
        (issue (map RegistryOwnerOf (rev [k + 1..int N])) (issue [RegistryTotalRegistered] st))"
    using k o by (intro ownerScan_skip) simp_all
  also have "\<dots> = getAgent r tget tset k
        (issue [RegistryOwnerOf k]
           (issue (map RegistryOwnerOf (rev [k + 1..int N])) (issue [RegistryTotalRegistered] st)))"
    using ownerScan_match [OF k(1) own] by simp
  finally show ?thesis by (simp add: u)
qed

lemma findAgentByOwner_absent:
  assumes tot: "registry_totalRegistered r = Inr N"
    and none: "\<forall>j \<in> {1..int N}. \<not> ownedBy r address j"
  shows "findAgentByOwner r tget tset address st =
           (Inr None, issue (RegistryTotalRegistered # map RegistryOwnerOf (rev [1..int N])) st)"
proof -
  have o: "\<forall>j. 0 < j \<and> j \<le> int N \<longrightarrow> \<not> ownedBy r address j"
    using none by auto
  have "findAgentByOwner r tget tset address st =
        ownerScan r tget tset (toLowerCase address) (int N) (issue [RegistryTotalRegistered] st)"
    by (simp add: findAgentByOwner_def getTotalRegistered_def tot)
  also have "\<dots> = ownerScan r tget tset (toLowerCase address) 0
        (issue (map RegistryOwnerOf (rev [0 + 1..int N])) (issue [RegistryTotalRegistered] st))"
    using o by (intro ownerScan_skip) simp_all
  finally show ?thesis by (simp add: ownerScan_nonpositive)
qed

lemma findAgentByOwner_v1_found:
  assumes tot: "registry_totalAgents r = Inr N"
    and k: "1 \<le> k" "k \<le> int N"
    and own: "ownedBy r address k"
    and others: "\<forall>j \<in> {1..int N}. j \<noteq> k \<longrightarrow> \<not> ownedBy r address j"
  shows "findAgentByOwner_v1 r tget tset address st =
           getAgent_v1 r tget tset k
             (issue (RegistryTotalAgents # map RegistryOwnerOf (rev [k..int N])) st)"
proof -
  have o: "\<forall>j. k < j \<and> j \<le> int N \<longrightarrow> \<not> ownedBy r address j"
    using others k by auto
  have u: "[k..int N] = k # [k + 1..int N]"
    using k by (simp add: upto_rec1)
  have "findAgentByOwner_v1 r tget tset address st =
        ownerScan_v1 r tget tset (toLowerCase address) (int N) (issue [RegistryTotalAgents] st)"
    by (simp add: findAgentByOwner_v1_def getTotalAgents_def tot)
  also have "\<dots> = ownerScan_v1 r tget tset (toLowerCase address) k
        (issue (map RegistryOwnerOf (rev [k + 1..int N])) (issue [RegistryTotalAgents] st))"
    using k o by (intro ownerScan_v1_skip) simp_all
  also have "\<dots> = getAgent_v1 r tget tset k
        (issue [RegistryOwnerOf k]
           (issue (map RegistryOwnerOf (rev [k + 1..int N])) (issue [RegistryTotalAgents] st)))"
    using ownerScan_v1_match [OF k(1) own] by simp
  finally show ?thesis by (simp add: u)
qed

lemma findAgentByOwner_v1_absent:
  assumes tot: "registry_totalAgents r = Inr N"
    and none: "\<forall>j \<in> {1..int N}. \<not> ownedBy r address j"
  shows "findAgentByOwner_v1 r tget tset address st =
           (Inr None, issue (RegistryTotalAgents # map RegistryOwnerOf (rev [1..int N])) st)"
proof -
  have o: "\<forall>j. 0 < j \<and> j \<le> int N \<longrightarrow> \<not> ownedBy r address j"
    using none by auto
  have "findAgentByOwner_v1 r tget tset address st =
        ownerScan_v1 r tget tset (toLowerCase address) (int N) (issue [RegistryTotalAgents] st)"
    by (simp add: findAgentByOwner_v1_def getTotalAgents_def tot)
  also have "\<dots> = ownerScan_v1 r tget tset (toLowerCase address) 0
        (issue (map RegistryOwnerOf (rev [0 + 1..int N])) (issue [RegistryTotalAgents] st))"
    using o by (intro ownerScan_v1_skip) simp_all
  finally show ?thesis by (simp add: ownerScan_v1_nonpositive)
qed

lemma length_probes: "k \<le> n + 1 \<Longrightarrow> length (map RegistryOwnerOf (rev [k..n])) = nat (n - k + 1)"
  by simp

lemma getCache_issue: "fst (getCache now key (issue cs st)) = fst (getCache now key st)"
  by (simp add: getCache_def split: option.splits)

text \<open>
  C3. Let the read of the total count return \<open>N\<close>, and let \<open>k\<close> with \<open>1 \<le> k \<le> N\<close> be
  the only identifier from 1 to \<open>N\<close> whose ownership read returns the queried address,
  compared without case; the other ownership reads may return another owner or fail.
  Then \<open>findAgentByOwner\<close> reads the total count, probes the owners of \<open>N\<close>, \<open>N - 1\<close>,
  down to \<open>k\<close>, in this order, which is \<open>N - k + 1\<close> probes, and returns what one call of
  \<open>getAgent\<close> for \<open>k\<close> returns. When no identifier from 1 to \<open>N\<close> matches, which
  includes \<open>N = 0\<close>, it probes \<open>N\<close> down to 1 and returns absent. Both variants agree;
  in the variant whose \<open>getAgent\<close> reads the owner itself, that read belongs to the one
  call of \<open>getAgent\<close> and comes after the probes.
\<close>

theorem findAgentByOwner_scan:
  "(registry_totalRegistered r = Inr N \<and> 1 \<le> k \<and> k \<le> int N \<and> ownedBy r address k
      \<and> (\<forall>j \<in> {1..int N}. j \<noteq> k \<longrightarrow> \<not> ownedBy r address j)
     \<longrightarrow> findAgentByOwner r tget tset address st =
           getAgent r tget tset k
             (st\<lparr>calls := calls st @ RegistryTotalRegistered
                                      # map RegistryOwnerOf (rev [k..int N])\<rparr>)
         \<and> length (map RegistryOwnerOf (rev [k..int N])) = nat (int N - k + 1))
   \<and> (registry_totalRegistered r = Inr N \<and> (\<forall>j \<in> {1..int N}. \<not> ownedBy r address j)
     \<longrightarrow> findAgentByOwner r tget tset address st =
           (Inr None,
            st\<lparr>calls := calls st @ RegistryTotalRegistered
                                     # map RegistryOwnerOf (rev [1..int N])\<rparr>))
   \<and> (registry_totalAgents r = Inr N \<and> 1 \<le> k \<and> k \<le> int N \<and> ownedBy r address k
      \<and> (\<forall>j \<in> {1..int N}. j \<noteq> k \<longrightarrow> \<not> ownedBy r address j)
     \<longrightarrow> findAgentByOwner_v1 r tget tset address st1 =
           getAgent_v1 r tget tset k
             (st1\<lparr>calls := calls st1 @ RegistryTotalAgents
                                        # map RegistryOwnerOf (rev [k..int N])\<rparr>))
   \<and> (registry_totalAgents r = Inr N \<and> (\<forall>j \<in> {1..int N}. \<not> ownedBy r address j)
     \<longrightarrow> findAgentByOwner_v1 r tget tset address st1 =
           (Inr None,
            st1\<lparr>calls := calls st1 @ RegistryTotalAgents
                                       # map RegistryOwnerOf (rev [1..int N])\<rparr>))"
proof (intro conjI impI)
  assume h: "registry_totalRegistered r = Inr N \<and> 1 \<le> k \<and> k \<le> int N \<and> ownedBy r address k
      \<and> (\<forall>j \<in> {1..int N}. j \<noteq> k \<longrightarrow> \<not> ownedBy r address j)"
  then show "findAgentByOwner r tget tset address st =
           getAgent r tget tset k
             (st\<lparr>calls := calls st @ RegistryTotalRegistered
                                      # map RegistryOwnerOf (rev [k..int N])\<rparr>)"
    using findAgentByOwner_found [of r N k address tget tset st] by (simp add: issue_def)
  from h show "length (map RegistryOwnerOf (rev [k..int N])) = nat (int N - k + 1)"
    by simp
next
  assume "registry_totalRegistered r = Inr N \<and> (\<forall>j \<in> {1..int N}. \<not> ownedBy r address j)"
  then show "findAgentByOwner r tget tset address st =
           (Inr None,
            st\<lparr>calls := calls st @ RegistryTotalRegistered
                                     # map RegistryOwnerOf (rev [1..int N])\<rparr>)"
    using findAgentByOwner_absent [of r N address tget tset st] by (simp add: issue_def)
next
  assume "registry_totalAgents r = Inr N \<and> 1 \<le> k \<and> k \<le> int N \<and> ownedBy r address k
      \<and> (\<forall>j \<in> {1..int N}. j \<noteq> k \<longrightarrow> \<not> ownedBy r address j)"
  then show "findAgentByOwner_v1 r tget tset address st1 =
           getAgent_v1 r tget tset k
             (st1\<lparr>calls := calls st1 @ RegistryTotalAgents
                                        # map RegistryOwnerOf (rev [k..int N])\<rparr>)"
    using findAgentByOwner_v1_found [of r N k address tget tset st1] by (simp add: issue_def)
next
  assume "registry_totalAgents r = Inr N \<and> (\<forall>j \<in> {1..int N}. \<not> ownedBy r address j)"
  then show "findAgentByOwner_v1 r tget tset address st1 =
           (Inr None,
            st1\<lparr>calls := calls st1 @ RegistryTotalAgents
                                       # map RegistryOwnerOf (rev [1..int N])\<rparr>)"
    using findAgentByOwner_v1_absent [of r N address tget tset st1] by (simp add: issue_def)
qed

theorem findAgentByOwner_scan_witness:
  "registry_totalRegistered rpcDemo = Inr 3
   \<and> ownedBy rpcDemo ''0xabc'' 2 \<and> \<not> ownedBy rpcDemo ''0xabc'' 1
   \<and> \<not> ownedBy rpcDemo ''0xabc'' 3
   \<and> registry_ownerOf rpcDemo 3 = Inl (Error ''timeout'')
   \<and> fst (findAgentByOwner rpcDemo 0 0 ''0xabc'' fresh) = Inr (Some demoAgent2)
   \<and> calls (snd (findAgentByOwner rpcDemo 0 0 ''0xabc'' fresh)) =
       [RegistryTotalRegistered, RegistryOwnerOf 3, RegistryOwnerOf 2,
        RegistryGetAgent 2, RegistryIsVerified 2, RegistryGetLineage 2,
        RegistryGetLicenseCount 2, RegistryTokenURI 2, RegistryGetLicense 2 0]
   \<and> findAgentByOwner rpcDemo 0 0 ''0x123'' fresh =
       (Inr None,
        fresh\<lparr>calls := [RegistryTotalRegistered, RegistryOwnerOf 3, RegistryOwnerOf 2,
                         RegistryOwnerOf 1]\<rparr>)
   \<and> registry_totalAgents rpcDemo = Inr 3
   \<and> fst (findAgentByOwner_v1 rpcDemo 0 0 ''0xabc'' fresh_v1) = Inr (Some demoAgent2_v1)
   \<and> calls (snd (findAgentByOwner_v1 rpcDemo 0 0 ''0xabc'' fresh_v1)) =
       [RegistryTotalAgents, RegistryOwnerOf 3, RegistryOwnerOf 2,
        RegistryGetAgent 2, RegistryGetLicenses 2, RegistryOwnerOf 2, RegistryTokenURI 2]"
proof -
  have tot: "registry_totalRegistered rpcDemo = Inr 3"
    and o3: "registry_ownerOf rpcDemo 3 = Inl (Error ''timeout'')"
    by (simp_all add: rpcDemo_def)
  have o: "ownedBy rpcDemo ''0xabc'' 2" "\<not> ownedBy rpcDemo ''0xabc'' 1"
    "\<not> ownedBy rpcDemo ''0xabc'' 3"
    "\<not> ownedBy rpcDemo ''0x123'' 1" "\<not> ownedBy rpcDemo ''0x123'' 2"
    "\<not> ownedBy rpcDemo ''0x123'' 3"
    by (simp_all add: ownedBy_def rpcDemo_def toLowerCase_def lowerChar_def)
  have others: "\<forall>j \<in> {1..int 3}. j \<noteq> 2 \<longrightarrow> \<not> ownedBy rpcDemo ''0xabc'' j"
  proof (intro ballI impI)
    fix j :: int assume "j \<in> {1..int 3}" "j \<noteq> 2"
    then have "j = 1 \<or> j = 3" by auto
    then show "\<not> ownedBy rpcDemo ''0xabc'' j" using o by auto
  qed
  have none: "\<forall>j \<in> {1..int 3}. \<not> ownedBy rpcDemo ''0x123'' j"
  proof
    fix j :: int assume "j \<in> {1..int 3}"
    then have "j = 1 \<or> j = 2 \<or> j = 3" by auto
    then show "\<not> ownedBy rpcDemo ''0x123'' j" using o by auto
  qed
  note t = findAgentByOwner_scan [where r = rpcDemo and N = 3 and tget = 0 and tset = 0
      and st = fresh]
  from t [where k = 2 and address = "''0xabc''", THEN conjunct1] tot o others
  have f: "findAgentByOwner rpcDemo 0 0 ''0xabc'' fresh =
           getAgent rpcDemo 0 0 2
             (issue [RegistryTotalRegistered, RegistryOwnerOf 3, RegistryOwnerOf 2] fresh)"
    by (simp add: issue_def)
  let ?st = "issue [RegistryTotalRegistered, RegistryOwnerOf 3, RegistryOwnerOf 2] fresh"
  have m: "fst (getCache 0 (agentKey 2) ?st) = None"
    by (simp add: getCache_issue fresh_miss)
  have a: "fst (assembleAgent rpcDemo 2) = Some demoAgent2"
    by (simp add: assembleAgent_demo2)
  have r1: "fst (findAgentByOwner rpcDemo 0 0 ''0xabc'' fresh) = Inr (Some demoAgent2)"
    using getAgent_miss_fst [OF m, of rpcDemo 0] a f by simp
  have r2: "calls (snd (findAgentByOwner rpcDemo 0 0 ''0xabc'' fresh)) =
       [RegistryTotalRegistered, RegistryOwnerOf 3, RegistryOwnerOf 2,
        RegistryGetAgent 2, RegistryIsVerified 2, RegistryGetLineage 2,
        RegistryGetLicenseCount 2, RegistryTokenURI 2, RegistryGetLicense 2 0]"
    using getAgent_miss_cached(2) [OF m a, of 0] f
    by (simp add: assembleAgent_demo2 fresh_def Origin_constructor_def)
  have u: "[1..3::int] = [1, 2, 3]"
    by (simp add: upto_rec1)
  from t [where k = 2 and address = "''0x123''", THEN conjunct2, THEN conjunct1] tot none
  have r3: "findAgentByOwner rpcDemo 0 0 ''0x123'' fresh =
       (Inr None,
        fresh\<lparr>calls := [RegistryTotalRegistered, RegistryOwnerOf 3, RegistryOwnerOf 2,
                         RegistryOwnerOf 1]\<rparr>)"
    by (simp add: fresh_def Origin_constructor_def u)
  have tot1: "registry_totalAgents rpcDemo = Inr 3"
    by (simp add: rpcDemo_def)
  from findAgentByOwner_scan [where r = rpcDemo and N = 3 and tget = 0 and tset = 0
      and ?st1.0 = fresh_v1 and k = 2 and address = "''0xabc''",
      THEN conjunct2, THEN conjunct2, THEN conjunct1] tot1 o others
  have f1: "findAgentByOwner_v1 rpcDemo 0 0 ''0xabc'' fresh_v1 =
           getAgent_v1 rpcDemo 0 0 2
             (issue [RegistryTotalAgents, RegistryOwnerOf 3, RegistryOwnerOf 2] fresh_v1)"
    by (simp add: issue_def)
  have m1: "fst (getCache 0 (agentKey 2)
                  (issue [RegistryTotalAgents, RegistryOwnerOf 3, RegistryOwnerOf 2] fresh_v1))
              = None"
    by (simp add: getCache_issue fresh_v1_miss)
  have r4: "fst (findAgentByOwner_v1 rpcDemo 0 0 ''0xabc'' fresh_v1) = Inr (Some demoAgent2_v1)"
    using getAgent_v1_miss_fst [OF m1, of rpcDemo 0] f1 by (simp add: assembleAgent_v1_demo2)
  have a1: "fst (assembleAgent_v1 rpcDemo 2) = Some demoAgent2_v1"
    by (simp add: assembleAgent_v1_demo2)
  have r5: "calls (snd (findAgentByOwner_v1 rpcDemo 0 0 ''0xabc'' fresh_v1)) =
       [RegistryTotalAgents, RegistryOwnerOf 3, RegistryOwnerOf 2,
        RegistryGetAgent 2, RegistryGetLicenses 2, RegistryOwnerOf 2, RegistryTokenURI 2]"
    using getAgent_v1_miss_cached(2) [OF m1 a1, of 0] f1
    by (simp add: assembleAgent_v1_demo2 fresh_v1_def Origin_constructor_def)
  from tot o o3 r1 r2 r3 tot1 r4 r5 show ?thesis by simp
qed

section \<open>Decimal rendering\<close>

lemma digits_small: "n < 10 \<Longrightarrow> digits n = [digitChar n]"
  by (subst digits.simps) simp

lemma digits_large: "\<not> n < 10 \<Longrightarrow> digits n = digits (n div 10) @ [digitChar (n mod 10)]"
  by (subst digits.simps) simp

lemma digits_nonempty: "digits n \<noteq> []"
  by (cases "n < 10") (simp_all add: digits_small digits_large)

lemma digits_times_10: "0 < n \<Longrightarrow> digits (n * 10) = digits n @ ''0''"
  by (subst digits.simps) (simp add: digitChar_def)

lemma digits_times_power: "0 < n \<Longrightarrow> digits (n * 10 ^ k) = digits n @ replicate k (CHR ''0'')"
proof (induction k)
  case 0
  then show ?case by simp
next
  case (Suc k)
  have "n * 10 ^ Suc k = (n * 10 ^ k) * 10"
    by simp
  then have "digits (n * 10 ^ Suc k) = digits ((n * 10 ^ k) * 10)"
    by (rule arg_cong)
  also have "\<dots> = digits (n * 10 ^ k) @ ''0''"
    using Suc.prems by (intro digits_times_10) simp
  also have "\<dots> = digits n @ replicate (Suc k) (CHR ''0'')"
    using Suc by (simp add: replicate_append_same)
  finally show ?case .
qed

lemma formatUnits_whole: "formatUnits (n * 10 ^ d) d = digits n"
proof (cases "n = 0")
  case True
  have "digits 0 = ''0''"
    by (simp add: digits_small digitChar_def)
  then show ?thesis
    using True by (cases d) (simp_all add: formatUnits_def Let_def)
next
  case False
  then have "digits (n * 10 ^ d) = digits n @ replicate d (CHR ''0'')"
    by (simp add: digits_times_power)
  then show ?thesis
    by (simp add: formatUnits_def Let_def digits_nonempty)
qed

lemma digits_million: "digits 1000000 = ''1000000''"
  by (simp add: digits.simps digitChar_def)

section \<open>Protocol statistics\<close>

lemma getStats_miss:
  assumes "fst (getCache tget ''stats'' st) = None"
    and "registry_totalRegistered r = Inr n"
  shows "fst (getStats r tget tset st) =
           Inr \<lparr> totalRegistered = n,
                  totalClaims = (case faucet_totalClaims r of Inl e \<Rightarrow> 0 | Inr c \<Rightarrow> c),
                  totalClamsSupply = (case clamsToken_totalSupply r of
                                        Inl e \<Rightarrow> ''0'' | Inr v \<Rightarrow> formatUnits v 18) \<rparr>"
  using assms by (simp add: getStats_def Let_def)

lemma getStats_v1_miss:
  assumes "fst (getCache tget ''stats'' st) = None"
    and "registry_totalAgents r = Inr n"
  shows "fst (getStats_v1 r tget tset st) =
           Inr \<lparr> totalAgents_v1 = n,
                  totalClaims_v1 = (case faucet_totalClaims r of Inl e \<Rightarrow> 0 | Inr c \<Rightarrow> c),
                  totalClamsSupply_v1 = (case clamsToken_totalSupply r of
                                           Inl e \<Rightarrow> ''0'' | Inr v \<Rightarrow> formatUnits v 18) \<rparr>"
  using assms by (simp add: getStats_v1_def Let_def)

text \<open>
  C9. When the statistics are not served from the cache, the read of the total count
  succeeds, and the read of the token supply returns \<open>1000000 * 10^18\<close> base units,
  \<open>getStats\<close> returns statistics whose \<open>totalClamsSupply\<close> is the string \<open>1000000\<close>:
  the base units written with 18 fractional digits, the trailing zeros and the point
  dropped. Both variants agree.
\<close>

theorem getStats_totalClamsSupply:
  "(fst (getCache tget ''stats'' st) = None \<and> registry_totalRegistered r = Inr n
      \<and> clamsToken_totalSupply r = Inr (1000000 * 10 ^ 18)
     \<longrightarrow> (\<exists>s. fst (getStats r tget tset st) = Inr s \<and> totalClamsSupply s = ''1000000''))
   \<and> (fst (getCache tget ''stats'' st1) = None \<and> registry_totalAgents r = Inr n
      \<and> clamsToken_totalSupply r = Inr (1000000 * 10 ^ 18)
     \<longrightarrow> (\<exists>s. fst (getStats_v1 r tget tset st1) = Inr s
              \<and> totalClamsSupply_v1 s = ''1000000''))
   \<and> formatUnits (1000000 * 10 ^ 18) 18 = ''1000000''"
proof -
  have f: "formatUnits (1000000 * 10 ^ 18) 18 = ''1000000''"
    using formatUnits_whole [of 1000000 18] digits_million by simp
  show ?thesis
  proof (intro conjI impI)
    assume "fst (getCache tget ''stats'' st) = None \<and> registry_totalRegistered r = Inr n
      \<and> clamsToken_totalSupply r = Inr (1000000 * 10 ^ 18)"
    then have m: "fst (getCache tget ''stats'' st) = None"
      and t: "registry_totalRegistered r = Inr n"
      and s: "clamsToken_totalSupply r = Inr (1000000 * 10 ^ 18)" by simp_all
    show "\<exists>s. fst (getStats r tget tset st) = Inr s \<and> totalClamsSupply s = ''1000000''"
      using getStats_miss [OF m t, of tset] s f by simp
  next
    assume "fst (getCache tget ''stats'' st1) = None \<and> registry_totalAgents r = Inr n
      \<and> clamsToken_totalSupply r = Inr (1000000 * 10 ^ 18)"
    then have m: "fst (getCache tget ''stats'' st1) = None"
      and t: "registry_totalAgents r = Inr n"
      and s: "clamsToken_totalSupply r = Inr (1000000 * 10 ^ 18)" by simp_all
    show "\<exists>s. fst (getStats_v1 r tget tset st1) = Inr s \<and> totalClamsSupply_v1 s = ''1000000''"
      using getStats_v1_miss [OF m t, of tset] s f by simp
  next
    show "formatUnits (1000000 * 10 ^ 18) 18 = ''1000000''" by (rule f)
  qed
qed

theorem getStats_totalClamsSupply_witness:
  "fst (getCache 0 ''stats'' fresh) = None \<and> registry_totalRegistered rpcDemo = Inr 3
   \<and> registry_totalAgents rpcDemo = Inr 3
   \<and> clamsToken_totalSupply rpcDemo = Inr (1000000 * 10 ^ 18)
   \<and> fst (getStats rpcDemo 0 0 fresh) =
        Inr \<lparr>totalRegistered = 3, totalClaims = 1, totalClamsSupply = ''1000000''\<rparr>
   \<and> fst (getStats_v1 rpcDemo 0 0 fresh_v1) =
        Inr \<lparr>totalAgents_v1 = 3, totalClaims_v1 = 1, totalClamsSupply_v1 = ''1000000''\<rparr>"
proof -
  have t: "registry_totalRegistered rpcDemo = Inr 3" "registry_totalAgents rpcDemo = Inr 3"
    and s: "clamsToken_totalSupply rpcDemo = Inr (1000000 * 10 ^ 18)"
    and c: "faucet_totalClaims rpcDemo = Inr 1"
    by (simp_all add: rpcDemo_def)
  note th = getStats_totalClamsSupply [where r = rpcDemo and n = 3 and tget = 0 and tset = 0
      and st = fresh and ?st1.0 = fresh_v1]
  from th [THEN conjunct1] fresh_miss t s
  obtain s2 where s2: "fst (getStats rpcDemo 0 0 fresh) = Inr s2"
    "totalClamsSupply s2 = ''1000000''" by blast
  from th [THEN conjunct2, THEN conjunct1] fresh_v1_miss t s
  obtain s1 where s1: "fst (getStats_v1 rpcDemo 0 0 fresh_v1) = Inr s1"
    "totalClamsSupply_v1 s1 = ''1000000''" by blast
  have "fst (getStats rpcDemo 0 0 fresh) =
        Inr \<lparr>totalRegistered = 3, totalClaims = 1, totalClamsSupply = ''1000000''\<rparr>"
    using getStats_miss [OF fresh_miss t(1), of 0 0] s2 c by simp
  moreover have "fst (getStats_v1 rpcDemo 0 0 fresh_v1) =
        Inr \<lparr>totalAgents_v1 = 3, totalClaims_v1 = 1, totalClamsSupply_v1 = ''1000000''\<rparr>"
    using getStats_v1_miss [OF fresh_v1_miss t(2), of 0 0] s1 c by simp
  ultimately show ?thesis using t s fresh_miss by simp
qed

section \<open>Cache keys\<close>

lemma digitChar_inj: "a < 10 \<Longrightarrow> b < 10 \<Longrightarrow> digitChar a = digitChar b \<Longrightarrow> a = b"
  using nth_eq_iff_index_eq [of "''0123456789''" a b] by (simp add: digitChar_def)

lemma digitChar_mem: "a < 10 \<Longrightarrow> digitChar a \<in> set ''0123456789''"
  unfolding digitChar_def by (rule nth_mem) simp

lemma digits_chars: "set (digits n) \<subseteq> set ''0123456789''"
proof (induction n rule: digits.induct)
  case (1 n)
  show ?case
  proof (cases "n < 10")
    case True
    then show ?thesis using digitChar_mem [of n] by (simp add: digits_small)
  next
    case False
    then show ?thesis
      using 1 digitChar_mem [of "n mod 10"] by (simp add: digits_large)
  qed
qed

lemma digits_inj: "digits n = digits m \<Longrightarrow> n = m"
proof (induction n arbitrary: m rule: digits.induct)
  case (1 n)
  show ?case
  proof (cases "n < 10")
    case n: True
    show ?thesis
    proof (cases "m < 10")
      case True
      with n "1.prems" show ?thesis
        by (simp add: digits_small digitChar_inj)
    next
      case False
      with n "1.prems" digits_nonempty [of "m div 10"] show ?thesis
        by (simp add: digits_small digits_large)
    qed
  next
    case n: False
    show ?thesis
    proof (cases "m < 10")
      case True
      with n "1.prems" digits_nonempty [of "n div 10"] show ?thesis
        by (simp add: digits_small digits_large)
    next
      case False
      with n "1.prems" have d: "digits (n div 10) = digits (m div 10)"
        and c: "digitChar (n mod 10) = digitChar (m mod 10)"
        by (simp_all add: digits_large)
      from "1.IH" [OF n d] have "n div 10 = m div 10" .
      moreover from c have "n mod 10 = m mod 10"
        by (intro digitChar_inj) simp_all
      ultimately show ?thesis
        by (metis div_mult_mod_eq)
    qed
  qed
qed

lemma showInt_inj: "showInt i = showInt j \<Longrightarrow> i = j"
proof -
  assume h: "showInt i = showInt j"
  have no_minus: "\<And>n. CHR ''-'' \<notin> set (digits n)"
    using digits_chars by fastforce
  show ?thesis
  proof (cases "i < 0"; cases "j < 0")
    assume "i < 0" "j < 0"
    with h have "digits (nat (- i)) = digits (nat (- j))" by (simp add: showInt_def)
    then have "nat (- i) = nat (- j)" by (rule digits_inj)
    with \<open>i < 0\<close> \<open>j < 0\<close> show ?thesis by simp
  next
    assume "i < 0" "\<not> j < 0"
    with h have "CHR ''-'' # digits (nat (- i)) = digits (nat j)" by (simp add: showInt_def)
    then have "CHR ''-'' \<in> set (digits (nat j))" by (metis list.set_intros(1))
    with no_minus show ?thesis by blast
  next
    assume "\<not> i < 0" "j < 0"
    with h have "digits (nat i) = CHR ''-'' # digits (nat (- j))" by (simp add: showInt_def)
    then have "CHR ''-'' \<in> set (digits (nat i))" by (metis list.set_intros(1))
    with no_minus show ?thesis by blast
  next
    assume "\<not> i < 0" "\<not> j < 0"
    with h have "digits (nat i) = digits (nat j)" by (simp add: showInt_def)
    then have "nat i = nat j" by (rule digits_inj)
    with \<open>\<not> i < 0\<close> \<open>\<not> j < 0\<close> show ?thesis by simp
  qed
qed

lemma agentKey_inj: "agentKey i = agentKey j \<Longrightarrow> i = j"
  by (simp add: agentKey_def showInt_inj)

lemma agentKey_not_stats: "agentKey i \<noteq> ''stats''"
  by (simp add: agentKey_def)

section \<open>The cache holds what the ledger gives\<close>

lemma assembleAgent_id: "fst (assembleAgent r tokenId) = Some a \<Longrightarrow> id_agent a = tokenId"
proof -
  assume a: "fst (assembleAgent r tokenId) = Some a"
  then obtain d where "registry_getAgent r tokenId = Inr d"
    by (cases "registry_getAgent r tokenId") (simp_all add: assembleAgent_None)
  from assembleAgent_Some [OF this] a show ?thesis by auto
qed

lemma cache_ok_constructor: "cache_ok r (Origin_constructor config)"
  by (simp add: cache_ok_def Origin_constructor_def)

lemma cache_ok_clearCache: "cache_ok r (clearCache st)"
  by (simp add: cache_ok_def clearCache_def)

lemma cache_ok_issue: "cache_ok r st \<Longrightarrow> cache_ok r (issue cs st)"
  by (simp add: cache_ok_def)

lemma cache_ok_getCache: "cache_ok r st \<Longrightarrow> cache_ok r (snd (getCache now key st))"
  by (auto simp add: cache_ok_def getCache_def split: option.splits if_splits)

lemma cache_ok_setCache_agent:
  "cache_ok r st \<Longrightarrow> fst (assembleAgent r tokenId) = Some a \<Longrightarrow>
   cache_ok r (setCache now (agentKey tokenId) (AgentData a) st)"
  using assembleAgent_id [of r tokenId a]
  by (auto simp add: cache_ok_def setCache_def)

lemma cache_ok_setCache_stats:
  "cache_ok r st \<Longrightarrow> cache_ok r (setCache now ''stats'' (StatsData s) st)"
  by (auto simp add: cache_ok_def setCache_def)

lemma cache_okD:
  "cache_ok r st \<Longrightarrow> cache st key = Some e \<Longrightarrow>
   (case data e of
      AgentData a \<Rightarrow> key = agentKey (id_agent a) \<and> fst (assembleAgent r (id_agent a)) = Some a
    | StatsData s \<Rightarrow> key = ''stats'')"
  by (simp add: cache_ok_def)

lemma cache_ok_hit:
  assumes "cache_ok r st" and "fst (getCache now (agentKey tokenId) st) = Some v"
  shows "\<exists>a. v = AgentData a \<and> fst (assembleAgent r tokenId) = Some a"
proof -
  from assms(2) obtain e where e: "cache st (agentKey tokenId) = Some e" and v: "data e = v"
    by (auto simp add: getCache_def split: option.splits if_splits)
  show ?thesis
  proof (cases v)
    case (AgentData a)
    with cache_okD [OF assms(1) e] v have "agentKey tokenId = agentKey (id_agent a)"
      and "fst (assembleAgent r (id_agent a)) = Some a"
      by simp_all
    with agentKey_inj [of tokenId "id_agent a"] AgentData show ?thesis by simp
  next
    case (StatsData s)
    with cache_okD [OF assms(1) e] v have "agentKey tokenId = ''stats''"
      by simp
    with agentKey_not_stats show ?thesis by simp
  qed
qed

lemma getAgent_hit:
  "fst (getCache tget (agentKey tokenId) st) = Some (AgentData a) \<Longrightarrow>
   getAgent r tget tset tokenId st = (Inr (Some a), st)"
  by (simp add: getAgent_def Let_def getCache_hit_state prod_eq_iff)

lemma getAgent_cache_ok:
  assumes ok: "cache_ok r st"
  shows "fst (getAgent r tget tset tokenId st) = Inr (fst (assembleAgent r tokenId))"
    and "cache_ok r (snd (getAgent r tget tset tokenId st))"
proof -
  show "fst (getAgent r tget tset tokenId st) = Inr (fst (assembleAgent r tokenId))"
  proof (cases "fst (getCache tget (agentKey tokenId) st)")
    case None
    then show ?thesis by (rule getAgent_miss_fst)
  next
    case (Some v)
    from cache_ok_hit [OF ok Some] obtain a where
      "v = AgentData a" "fst (assembleAgent r tokenId) = Some a" by blast
    with Some show ?thesis by (simp add: getAgent_hit)
  qed
  show "cache_ok r (snd (getAgent r tget tset tokenId st))"
  proof (cases "fst (getCache tget (agentKey tokenId) st)")
    case None
    show ?thesis
    proof (cases "fst (assembleAgent r tokenId)")
      case n: None
      with None show ?thesis
        by (simp add: getAgent_miss cache_ok_issue cache_ok_getCache ok)
    next
      case (Some a)
      with None show ?thesis
        by (simp add: getAgent_miss cache_ok_setCache_agent cache_ok_issue cache_ok_getCache ok)
    qed
  next
    case (Some v)
    from cache_ok_hit [OF ok Some] obtain a where "v = AgentData a" by blast
    with Some ok show ?thesis by (simp add: getAgent_hit)
  qed
qed

lemma ownerScan_cache_ok:
  "cache_ok r st \<Longrightarrow> cache_ok r (snd (ownerScan r tget tset a i st))"
proof (induction r tget tset a i st rule: ownerScan.induct)
  case (1 r tget tset a i st)
  show ?case
  proof (cases "i \<ge> 1")
    case False
    with "1.prems" show ?thesis by (subst ownerScan.simps) simp
  next
    case True
    have ok1: "cache_ok r (issue [RegistryOwnerOf i] st)"
      using "1.prems" by (rule cache_ok_issue)
    show ?thesis
    proof (cases "registry_ownerOf r i")
      case (Inl e)
      with True ok1 "1.IH" show ?thesis
        by (subst ownerScan.simps) (simp add: Let_def)
    next
      case (Inr own)
      show ?thesis
      proof (cases "toLowerCase own = a")
        case m: True
        with True Inr getAgent_cache_ok(2) [OF ok1] show ?thesis
          by (subst ownerScan.simps) (simp add: Let_def)
      next
        case m: False
        with True Inr ok1 "1.IH" show ?thesis
          by (subst ownerScan.simps) (simp add: Let_def)
      qed
    qed
  qed
qed

lemma findAgentByOwner_cache_ok:
  "cache_ok r st \<Longrightarrow> cache_ok r (snd (findAgentByOwner r tget tset address st))"
  by (cases "registry_totalRegistered r")
     (simp_all add: findAgentByOwner_def getTotalRegistered_def cache_ok_issue ownerScan_cache_ok)

lemma verifyAgent_cache_ok:
  assumes "cache_ok r st"
  shows "cache_ok r (snd (verifyAgent r tget tset address st))"
proof -
  have ok1: "cache_ok r (issue [RegistryBalanceOf address] st)"
    using assms by (rule cache_ok_issue)
  note f = findAgentByOwner_cache_ok [OF ok1, of tget tset address]
  show ?thesis
    using ok1 f
    by (simp add: verifyAgent_def Let_def split: sum.splits option.splits)
qed

lemma verifyAgentById_cache_ok:
  "cache_ok r st \<Longrightarrow> cache_ok r (snd (verifyAgentById r tget tset tokenId st))"
  using getAgent_cache_ok(2) [of r st tget tset tokenId]
  by (simp add: verifyAgentById_def Let_def split: sum.splits option.splits)

lemma isRegistered_cache_ok: "cache_ok r st \<Longrightarrow> cache_ok r (snd (isRegistered r address st))"
  by (simp add: isRegistered_def Let_def cache_ok_issue split: sum.splits)

lemma hasClaimed_cache_ok: "cache_ok r st \<Longrightarrow> cache_ok r (snd (hasClaimed r address st))"
  by (simp add: hasClaimed_def Let_def cache_ok_issue split: sum.splits)

lemma getClamsBalance_cache_ok:
  "cache_ok r st \<Longrightarrow> cache_ok r (snd (getClamsBalance r address st))"
  by (simp add: getClamsBalance_def Let_def cache_ok_issue split: sum.splits)

lemma getStats_cache_ok: "cache_ok r st \<Longrightarrow> cache_ok r (snd (getStats r tget tset st))"
  by (simp add: getStats_def Let_def cache_ok_issue cache_ok_getCache cache_ok_setCache_stats
        split: sum.splits option.splits cached.splits)

lemma reachable_cache_ok: "reachable r st \<Longrightarrow> cache_ok r st"
proof (induction rule: reachable.induct)
  case (constructed config)
  show ?case by (rule cache_ok_constructor)
next
  case (verifyAgent st tget tset address)
  then show ?case by (simp add: verifyAgent_cache_ok)
next
  case (verifyAgentById st tget tset tokenId)
  then show ?case by (simp add: verifyAgentById_cache_ok)
next
  case (isRegistered st address)
  then show ?case by (simp add: isRegistered_cache_ok)
next
  case (hasClaimed st address)
  then show ?case by (simp add: hasClaimed_cache_ok)
next
  case (getAgent st tget tset tokenId)
  then show ?case by (simp add: getAgent_cache_ok(2))
next
  case (findAgentByOwner st tget tset address)
  then show ?case by (simp add: findAgentByOwner_cache_ok)
next
  case (getStats st tget tset)
  then show ?case by (simp add: getStats_cache_ok)
next
  case (getClamsBalance st address)
  then show ?case by (simp add: getClamsBalance_cache_ok)
next
  case (clearCache st)
  show ?case by (rule cache_ok_clearCache)
qed

section \<open>Resolving again after clearing the cache\<close>

text \<open>
  C8. Let a client be in any state reached from its construction by public operations
  on a ledger that answers every read always the same way. If \<open>getAgent\<close> returns a
  record for an identifier, then after \<open>clearCache\<close> a further \<open>getAgent\<close> for the same
  identifier, at any later instants, returns the same record: all fields are equal.
\<close>

theorem clearCache_reresolve:
  assumes "reachable r st"
    and "fst (getAgent r tget tset tokenId st) = Inr (Some a)"
  shows "fst (getAgent r tget' tset' tokenId
                (clearCache (snd (getAgent r tget tset tokenId st)))) = Inr (Some a)"
proof -
  have ok: "cache_ok r st"
    using assms(1) by (rule reachable_cache_ok)
  have "fst (assembleAgent r tokenId) = Some a"
    using getAgent_cache_ok(1) [OF ok, of tget tset tokenId] assms(2) by simp
  moreover have "fst (getCache tget' (agentKey tokenId)
                       (clearCache (snd (getAgent r tget tset tokenId st)))) = None"
    by (simp add: getCache_def clearCache_def)
  ultimately show ?thesis
    by (simp add: getAgent_miss_fst)
qed

theorem clearCache_reresolve_witness:
  "reachable rpcDemo stExpired
   \<and> fst (getAgent rpcDemo 100 100 2 stExpired) = Inr (Some demoAgent2)
   \<and> fst (getAgent rpcDemo 200 200 2 (clearCache (snd (getAgent rpcDemo 100 100 2 stExpired))))
       = Inr (Some demoAgent2)"
proof -
  have "reachable rpcDemo (fresh :: cached Origin)"
    unfolding fresh_def by (rule reachable.constructed)
  then have r: "reachable rpcDemo stExpired"
    unfolding stExpired_def by (rule reachable.getAgent)
  have hit: "fst (getCache 100 (agentKey 2) stExpired) = Some (AgentData demoAgent2)"
    by (simp add: getCache_def stExpired_entry)
  have g: "fst (getAgent rpcDemo 100 100 2 stExpired) = Inr (Some demoAgent2)"
    using getAgent_hit [OF hit] by simp
  from clearCache_reresolve [OF r g, of 200 200] r g show ?thesis by simp
qed

end
